theory Spec2Isabelle
  imports Main
begin

section \<open>JavaScript values and errors\<close>

text \<open>
  Strings are byte strings. An optional value (\<open>string | undefined\<close>) is an
  \<open>option\<close>; an exception is the \<open>Inl\<close> branch of a sum.
\<close>

datatype error = TypeError | SyntaxError | URIError | Unsupported | GitError string

text \<open>Truthiness of a \<open>string | undefined\<close>: undefined and the empty string are falsy.\<close>

fun truthy :: "string option \<Rightarrow> bool" where
  "truthy None = False"
| "truthy (Some s) = (s \<noteq> [])"

text \<open>The operator \<open>a || b\<close> on optional strings.\<close>

definition js_or :: "string option \<Rightarrow> string option \<Rightarrow> string option" where
  "js_or a b = (if truthy a then a else b)"

section \<open>Node's path module, POSIX flavour\<close>

text \<open>
  The library scans its argument character by character; the model works on the list of
  segments between slashes, which is what the scan computes.
\<close>

fun segments :: "string \<Rightarrow> string list" where
  "segments [] = [[]]"
| "segments (c # cs) =
     (if c = CHR ''/'' then [] # segments cs
      else (case segments cs of [] \<Rightarrow> [[c]] | s # ss \<Rightarrow> (c # s) # ss))"

fun joinSegs :: "string list \<Rightarrow> string" where
  "joinSegs [] = []"
| "joinSegs [s] = s"
| "joinSegs (s # t # ss) = s @ CHR ''/'' # joinSegs (t # ss)"

text \<open>
  One step of \<open>normalizeString\<close>: the stack holds the segments kept so far, last one
  first. An empty segment and \<open>.\<close> are skipped; \<open>..\<close> removes the last segment
  unless there is none or it is \<open>..\<close> itself, and then it is kept only when
  \<open>allowAboveRoot\<close> holds.
\<close>

definition normalizeStep :: "bool \<Rightarrow> string list \<Rightarrow> string \<Rightarrow> string list" where
  "normalizeStep allowAboveRoot st seg =
     (if seg = [] \<or> seg = ''.'' then st
      else if seg = ''..'' then
        (case st of
           [] \<Rightarrow> if allowAboveRoot then [''..''] else []
         | lastSeg # rest \<Rightarrow>
             if lastSeg = ''..'' then (if allowAboveRoot then ''..'' # st else st) else rest)
      else seg # st)"

definition normalizeSegs :: "bool \<Rightarrow> string \<Rightarrow> string list" where
  "normalizeSegs allowAboveRoot p = rev (foldl (normalizeStep allowAboveRoot) [] (segments p))"

definition normalizeString :: "string \<Rightarrow> bool \<Rightarrow> string" where
  "normalizeString p allowAboveRoot = joinSegs (normalizeSegs allowAboveRoot p)"

definition path_isAbsolute :: "string \<Rightarrow> bool" where
  "path_isAbsolute p = (p \<noteq> [] \<and> hd p = CHR ''/'')"

text \<open>
  The loop of \<open>path.resolve\<close>: the arguments are taken from the last to the first, then
  the working directory, until an absolute one is met. Each argument is validated when the
  loop reaches it (a non-string raises TypeError); an empty one is skipped.
\<close>

fun resolveLoop :: "string option list \<Rightarrow> string \<Rightarrow> error + (string \<times> bool)" where
  "resolveLoop [] resolvedPath = Inr (resolvedPath, False)"
| "resolveLoop (None # ps) resolvedPath = Inl TypeError"
| "resolveLoop (Some p # ps) resolvedPath =
     (if p = [] then resolveLoop ps resolvedPath
      else if hd p = CHR ''/'' then Inr (p @ CHR ''/'' # resolvedPath, True)
      else resolveLoop ps (p @ CHR ''/'' # resolvedPath))"

definition path_resolve :: "string \<Rightarrow> string option list \<Rightarrow> error + string" where
  "path_resolve cwd args =
     (case resolveLoop (rev args @ [Some cwd]) [] of
        Inl e \<Rightarrow> Inl e
      | Inr (resolvedPath, resolvedAbsolute) \<Rightarrow>
          (let n = normalizeString resolvedPath (\<not> resolvedAbsolute)
           in Inr (if resolvedAbsolute then CHR ''/'' # n
                   else if n \<noteq> [] then n else ''.'')))"

text \<open>\<open>path.resolve\<close> on arguments that are all strings cannot raise.\<close>

definition resolveStr :: "string \<Rightarrow> string list \<Rightarrow> string" where
  "resolveStr cwd args =
     (case path_resolve cwd (map Some args) of Inl e \<Rightarrow> [] | Inr p \<Rightarrow> p)"

text \<open>
  \<open>path.relative\<close>: both paths are resolved; the segments they share from the root are
  dropped, one \<open>..\<close> is emitted for each segment left in \<open>from\<close>, then what is left
  of \<open>to\<close>.
\<close>

definition absSegs :: "string \<Rightarrow> string list" where
  "absSegs p = filter (\<lambda>s. s \<noteq> []) (segments p)"

fun dropCommon :: "string list \<Rightarrow> string list \<Rightarrow> string list \<times> string list" where
  "dropCommon (x # xs) (y # ys) = (if x = y then dropCommon xs ys else (x # xs, y # ys))"
| "dropCommon xs ys = (xs, ys)"

definition path_relative :: "string \<Rightarrow> string \<Rightarrow> string \<Rightarrow> string" where
  "path_relative cwd fromPath toPath =
     (if fromPath = toPath then []
      else
        (let f = resolveStr cwd [fromPath]; t = resolveStr cwd [toPath]
         in if f = t then []
            else (case dropCommon (absSegs f) (absSegs t) of
                    (fr, tr) \<Rightarrow> joinSegs (replicate (length fr) ''..'' @ tr))))"

definition path_normalize :: "string \<Rightarrow> string" where
  "path_normalize p =
     (if p = [] then ''.''
      else
        (let isAbsolute = (hd p = CHR ''/'');
             trailingSeparator = (last p = CHR ''/'');
             n = normalizeString p (\<not> isAbsolute)
         in if n = [] then (if isAbsolute then ''/'' else if trailingSeparator then ''./'' else ''.'')
            else (let n' = (if trailingSeparator then n @ ''/'' else n)
                  in if isAbsolute then CHR ''/'' # n' else n')))"

definition path_join :: "string list \<Rightarrow> string" where
  "path_join args =
     (let joined = filter (\<lambda>a. a \<noteq> []) args
      in if joined = [] then ''.'' else path_normalize (joinSegs joined))"

text \<open>Trailing slashes are not part of the last component.\<close>

definition stripSlashes :: "string \<Rightarrow> string" where
  "stripSlashes p = rev (dropWhile (\<lambda>c. c = CHR ''/'') (rev p))"

definition lastComponent :: "string \<Rightarrow> string" where
  "lastComponent p = rev (takeWhile (\<lambda>c. c \<noteq> CHR ''/'') (rev p))"

text \<open>
  \<open>path.dirname\<close>: the scan runs from the end down to index 1, so the first character
  is never taken for a separator of the last component.
\<close>

definition path_dirname :: "string \<Rightarrow> string" where
  "path_dirname p =
     (if p = [] then ''.''
      else
        (let hasRoot = (hd p = CHR ''/'');
             body = stripSlashes (tl p)
         in if CHR ''/'' \<notin> set body then (if hasRoot then ''/'' else ''.'')
            else (let e = Suc (length body) - Suc (length (lastComponent body))
                  in if hasRoot \<and> e = 1 then ''//'' else take e p)))"

definition path_basename :: "string \<Rightarrow> string" where
  "path_basename p = lastComponent (stripSlashes p)"

record ParsedPath =
  root :: string
  dir :: string
  base :: string
  ext :: string
  name :: string

text \<open>
  \<open>path.parse\<close>. The scan runs from the end down to \<open>start\<close> (1 for an absolute path).
  \<open>startPart\<close> is the index where the last component begins when a separator precedes it
  inside the scanned part, and 0 otherwise. The extension starts at the last dot of the
  last component, unless there is no dot, the dot is the component's first character, or
  the component is \<open>..\<close> and begins at \<open>startPart\<close>.
\<close>

definition lastDot :: "string \<Rightarrow> nat option" where
  "lastDot b =
     (if CHR ''.'' \<in> set b
      then Some (length b - Suc (length (takeWhile (\<lambda>c. c \<noteq> CHR ''.'') (rev b))))
      else None)"

definition path_parse :: "string \<Rightarrow> ParsedPath" where
  "path_parse p =
     (if p = [] then \<lparr>root = [], dir = [], base = [], ext = [], name = []\<rparr>
      else
        (let isAbsolute = (hd p = CHR ''/'');
             start = (if isAbsolute then 1 else 0);
             scanned = stripSlashes (drop start p);
             b = lastComponent scanned;
             baseStart = start + length scanned - length b;
             startPart = (if CHR ''/'' \<in> set scanned then baseStart else 0);
             d = (if startPart > 0 then take (startPart - 1) p
                  else if isAbsolute then ''/'' else []);
             noExt =
               (case lastDot b of
                  None \<Rightarrow> True
                | Some i \<Rightarrow> i = 0 \<or> (hd b = CHR ''.'' \<and> Suc i = length b \<and> baseStart + i = startPart + 1))
         in \<lparr>root = (if isAbsolute then ''/'' else []),
             dir = d,
             base = b,
             ext = (if noExt then [] else drop (the (lastDot b)) b),
             name = (if noExt then b else take (the (lastDot b)) b)\<rparr>))"

section \<open>The host's resource locator\<close>

record Uri =
  scheme :: string
  authority :: string
  path :: string
  query :: string
  fragment :: string

text \<open>
  \<open>Uri.file\<close>: a path that starts with two slashes carries an authority (a UNC share);
  any other path is taken as given, with a leading slash ensured.
\<close>

definition Uri_file :: "string \<Rightarrow> Uri" where
  "Uri_file p =
     (if take 2 p = ''//'' then
        (let r = drop 2 p; a = takeWhile (\<lambda>c. c \<noteq> CHR ''/'') r;
             q = dropWhile (\<lambda>c. c \<noteq> CHR ''/'') r
         in \<lparr>scheme = ''file'', authority = a, path = (if q = [] then ''/'' else q),
              query = [], fragment = []\<rparr>)
      else \<lparr>scheme = ''file'', authority = [],
             path = (if take 1 p = ''/'' then p else CHR ''/'' # p),
             query = [], fragment = []\<rparr>)"

text \<open>
  \<open>decodeURIComponent\<close> on bytes: an escape is a percent sign and two hexadecimal digits;
  anything else after a percent sign raises URIError. An escape of a byte above 127 is
  part of a multi-byte sequence, which this model does not follow: the result is
  \<open>Unsupported\<close>.
\<close>

definition hexVal :: "char \<Rightarrow> nat option" where
  "hexVal c =
     (let n = (of_char c :: nat)
      in if 48 \<le> n \<and> n \<le> 57 then Some (n - 48)
         else if 97 \<le> n \<and> n \<le> 102 then Some (n - 87)
         else if 65 \<le> n \<and> n \<le> 70 then Some (n - 55)
         else None)"

definition consResult :: "'a \<Rightarrow> error + 'a list \<Rightarrow> error + 'a list" where
  "consResult x r = (case r of Inl e \<Rightarrow> Inl e | Inr xs \<Rightarrow> Inr (x # xs))"

fun decodeURIComponent :: "string \<Rightarrow> error + string" where
  "decodeURIComponent [] = Inr []"
| "decodeURIComponent (c # cs) =
     (if c \<noteq> CHR ''%'' then consResult c (decodeURIComponent cs)
      else
        (case cs of
           h1 # h2 # rest \<Rightarrow>
             (case (hexVal h1, hexVal h2) of
                (Some a, Some b) \<Rightarrow>
                  if 16 * a + b < 128
                  then consResult (char_of (16 * a + b)) (decodeURIComponent rest)
                  else Inl Unsupported
              | _ \<Rightarrow> Inl URIError)
         | _ \<Rightarrow> Inl URIError))"

text \<open>
  \<open>Uri.parse\<close> splits its argument with the regular expression
  \<^verbatim>\<open>^(([^:/?#]+?):)?(\/\/([^/?#]*))?([^?#]*)(\?([^#]*))?(#(.*))?\<close>
  and decodes authority, path, query and fragment. The dot of the last group stops at a
  line terminator.
\<close>

definition schemeChar :: "char \<Rightarrow> bool" where
  "schemeChar c = (c \<noteq> CHR '':'' \<and> c \<noteq> CHR ''/'' \<and> c \<noteq> CHR ''?'' \<and> c \<noteq> CHR ''#'')"

definition authorityChar :: "char \<Rightarrow> bool" where
  "authorityChar c = (c \<noteq> CHR ''/'' \<and> c \<noteq> CHR ''?'' \<and> c \<noteq> CHR ''#'')"

definition pathChar :: "char \<Rightarrow> bool" where
  "pathChar c = (c \<noteq> CHR ''?'' \<and> c \<noteq> CHR ''#'')"

definition queryChar :: "char \<Rightarrow> bool" where
  "queryChar c = (c \<noteq> CHR ''#'')"

fun uptoLineEnd :: "string \<Rightarrow> string" where
  "uptoLineEnd [] = []"
| "uptoLineEnd (c # cs) =
     (if c = CHR 0x0A \<or> c = CHR 0x0D then []
      else if c = CHR 0xE2 \<and> (take 2 cs = [CHR 0x80, CHR 0xA8] \<or> take 2 cs = [CHR 0x80, CHR 0xA9]) then []
      else c # uptoLineEnd cs)"

definition Uri_parse :: "string \<Rightarrow> error + Uri" where
  "Uri_parse v =
     (let pre = takeWhile schemeChar v;
          afterPre = dropWhile schemeChar v;
          hasScheme = (pre \<noteq> [] \<and> take 1 afterPre = '':'');
          sch = (if hasScheme then pre else []);
          r1 = (if hasScheme then drop 1 afterPre else v);
          hasAuthority = (take 2 r1 = ''//'');
          auth = (if hasAuthority then takeWhile authorityChar (drop 2 r1) else []);
          r2 = (if hasAuthority then dropWhile authorityChar (drop 2 r1) else r1);
          pth = takeWhile pathChar r2;
          r3 = dropWhile pathChar r2;
          hasQuery = (take 1 r3 = ''?'');
          qry = (if hasQuery then takeWhile queryChar (drop 1 r3) else []);
          r4 = (if hasQuery then dropWhile queryChar (drop 1 r3) else r3);
          frag = (if take 1 r4 = ''#'' then uptoLineEnd (drop 1 r4) else [])
      in case decodeURIComponent auth of Inl e \<Rightarrow> Inl e | Inr a \<Rightarrow>
         (case decodeURIComponent pth of Inl e \<Rightarrow> Inl e | Inr p \<Rightarrow>
         (case decodeURIComponent qry of Inl e \<Rightarrow> Inl e | Inr q \<Rightarrow>
         (case decodeURIComponent frag of Inl e \<Rightarrow> Inl e | Inr f \<Rightarrow>
            Inr \<lparr>scheme = sch, authority = a, path = p, query = q, fragment = f\<rparr>))))"

text \<open>
  \<open>uri.fsPath\<close> on a POSIX host: a file locator with an authority is a UNC path, a path
  that starts with a drive letter loses its leading slash and has the letter lowered, any
  other path is returned as it is.
\<close>

definition isLetter :: "char \<Rightarrow> bool" where
  "isLetter c = (let n = (of_char c :: nat) in (65 \<le> n \<and> n \<le> 90) \<or> (97 \<le> n \<and> n \<le> 122))"

definition toLower :: "char \<Rightarrow> char" where
  "toLower c = (let n = (of_char c :: nat) in if 65 \<le> n \<and> n \<le> 90 then char_of (n + 32) else c)"

definition fsPath :: "'a Uri_scheme \<Rightarrow> string" where
  "fsPath u =
     (if authority u \<noteq> [] \<and> length (path u) > 1 \<and> scheme u = ''file''
      then ''//'' @ authority u @ path u
      else
        (case path u of
           c0 # c1 # c2 # rest \<Rightarrow>
             if c0 = CHR ''/'' \<and> isLetter c1 \<and> c2 = CHR '':'' then toLower c1 # c2 # rest
             else path u
         | _ \<Rightarrow> path u))"

section \<open>JSON, for objects whose members are strings\<close>

text \<open>
  \<open>JSON.stringify\<close> of an object literal whose properties are strings or undefined: a
  property that is undefined is left out; the others are written in the order of the
  literal.
\<close>

definition hexDigit :: "nat \<Rightarrow> char" where
  "hexDigit n = ''0123456789abcdef'' ! n"

definition quoteChar :: "char \<Rightarrow> string" where
  "quoteChar c =
     (if c = CHR 0x22 then [CHR 0x5C, CHR 0x22]
      else if c = CHR 0x5C then [CHR 0x5C, CHR 0x5C]
      else if c = CHR 0x08 then [CHR 0x5C, CHR ''b'']
      else if c = CHR 0x0C then [CHR 0x5C, CHR ''f'']
      else if c = CHR 0x0A then [CHR 0x5C, CHR ''n'']
      else if c = CHR 0x0D then [CHR 0x5C, CHR ''r'']
      else if c = CHR 0x09 then [CHR 0x5C, CHR ''t'']
      else if (of_char c :: nat) < 32
        then [CHR 0x5C, CHR ''u'', CHR ''0'', CHR ''0'',
              hexDigit ((of_char c :: nat) div 16), hexDigit ((of_char c :: nat) mod 16)]
      else [c])"

definition quoteJSONString :: "string \<Rightarrow> string" where
  "quoteJSONString s = CHR 0x22 # concat (map quoteChar s) @ [CHR 0x22]"

fun joinMembers :: "string list \<Rightarrow> string" where
  "joinMembers [] = []"
| "joinMembers [m] = m"
| "joinMembers (m # n # ms) = m @ CHR '','' # joinMembers (n # ms)"

definition definedMembers :: "(string \<times> string option) list \<Rightarrow> (string \<times> string) list" where
  "definedMembers obj = concat (map (\<lambda>(k, v). case v of None \<Rightarrow> [] | Some s \<Rightarrow> [(k, s)]) obj)"

definition renderMember :: "string \<times> string \<Rightarrow> string" where
  "renderMember m = (case m of (k, s) \<Rightarrow> quoteJSONString k @ CHR '':'' # quoteJSONString s)"

definition JSON_stringify :: "(string \<times> string option) list \<Rightarrow> string" where
  "JSON_stringify obj =
     CHR ''{'' # joinMembers (map renderMember (definedMembers obj)) @ [CHR ''}'']"

text \<open>
  \<open>JSON.parse\<close>, in two passes: tokens, then the object. The model follows documents
  that are one object whose members are strings. Where the text goes on with another kind
  of value (a number, a literal, an array, a nested object), or with an escape above
  U+007F, the model stops with \<open>Unsupported\<close> and says nothing about the code.
\<close>

datatype token = LBrace | RBrace | Colon | Comma | Str string

definition isWhitespace :: "char \<Rightarrow> bool" where
  "isWhitespace c = (c = CHR '' '' \<or> c = CHR 0x09 \<or> c = CHR 0x0A \<or> c = CHR 0x0D)"

definition startsOtherValue :: "char \<Rightarrow> bool" where
  "startsOtherValue c =
     (c = CHR ''['' \<or> c = CHR '']'' \<or> c = CHR ''-'' \<or> c = CHR ''t'' \<or> c = CHR ''f'' \<or> c = CHR ''n''
      \<or> (48 \<le> (of_char c :: nat) \<and> (of_char c :: nat) \<le> 57))"

definition unescape :: "char \<Rightarrow> char option" where
  "unescape e =
     (if e = CHR 0x22 then Some (CHR 0x22)
      else if e = CHR 0x5C then Some (CHR 0x5C)
      else if e = CHR ''/'' then Some (CHR ''/'')
      else if e = CHR ''b'' then Some (CHR 0x08)
      else if e = CHR ''f'' then Some (CHR 0x0C)
      else if e = CHR ''n'' then Some (CHR 0x0A)
      else if e = CHR ''r'' then Some (CHR 0x0D)
      else if e = CHR ''t'' then Some (CHR 0x09)
      else None)"

definition hex4 :: "char \<Rightarrow> char \<Rightarrow> char \<Rightarrow> char \<Rightarrow> nat option" where
  "hex4 a b c d =
     (case (hexVal a, hexVal b, hexVal c, hexVal d) of
        (Some w, Some x, Some y, Some z) \<Rightarrow> Some (4096 * w + 256 * x + 16 * y + z)
      | _ \<Rightarrow> None)"

text \<open>
  The first argument is \<open>None\<close> between tokens and holds the characters read so far,
  last one first, inside a string.
\<close>

fun lexJSON :: "string option \<Rightarrow> string \<Rightarrow> error + token list" where
  "lexJSON None [] = Inr []"
| "lexJSON (Some acc) [] = Inl SyntaxError"
| "lexJSON None (c # cs) =
     (if isWhitespace c then lexJSON None cs
      else if c = CHR 0x22 then lexJSON (Some []) cs
      else if c = CHR ''{'' then consResult LBrace (lexJSON None cs)
      else if c = CHR ''}'' then consResult RBrace (lexJSON None cs)
      else if c = CHR '':'' then consResult Colon (lexJSON None cs)
      else if c = CHR '','' then consResult Comma (lexJSON None cs)
      else if startsOtherValue c then Inl Unsupported
      else Inl SyntaxError)"
| "lexJSON (Some acc) (c # cs) =
     (if c = CHR 0x22 then consResult (Str (rev acc)) (lexJSON None cs)
      else if c = CHR 0x5C then
        (case cs of
           [] \<Rightarrow> Inl SyntaxError
         | e # cs' \<Rightarrow>
             if e = CHR ''u'' then
               (case cs' of
                  h1 # h2 # h3 # h4 # cs'' \<Rightarrow>
                    (case hex4 h1 h2 h3 h4 of
                       None \<Rightarrow> Inl SyntaxError
                     | Some n \<Rightarrow>
                         if n < 128 then lexJSON (Some (char_of n # acc)) cs''
                         else Inl Unsupported)
                | _ \<Rightarrow> Inl SyntaxError)
             else
               (case unescape e of
                  None \<Rightarrow> Inl SyntaxError
                | Some ch \<Rightarrow> lexJSON (Some (ch # acc)) cs'))
      else if (of_char c :: nat) < 32 then Inl SyntaxError
      else lexJSON (Some (c # acc)) cs)"

fun parseMembers :: "token list \<Rightarrow> error + (string \<times> string) list" where
  "parseMembers ts =
     (case ts of
        Str k # Colon # Str v # rest \<Rightarrow>
          (case rest of
             [RBrace] \<Rightarrow> Inr [(k, v)]
           | Comma # ts' \<Rightarrow> consResult (k, v) (parseMembers ts')
           | _ \<Rightarrow> Inl SyntaxError)
      | Str k # Colon # LBrace # rest \<Rightarrow> Inl Unsupported
      | _ \<Rightarrow> Inl SyntaxError)"

declare parseMembers.simps [simp del]

definition parseObject :: "token list \<Rightarrow> error + (string \<times> string) list" where
  "parseObject ts =
     (case ts of
        [LBrace, RBrace] \<Rightarrow> Inr []
      | LBrace # ts' \<Rightarrow> parseMembers ts'
      | Str s # ts' \<Rightarrow> Inl Unsupported
      | _ \<Rightarrow> Inl SyntaxError)"

definition JSON_parse :: "string \<Rightarrow> error + (string \<times> string) list" where
  "JSON_parse s = (case lexJSON None s of Inl e \<Rightarrow> Inl e | Inr ts \<Rightarrow> parseObject ts)"

text \<open>Reading a property: of two members with one key, the later one counts.\<close>

definition getProp :: "(string \<times> string) list \<Rightarrow> string \<Rightarrow> string option" where
  "getProp obj k = map_of (rev obj) k"

section \<open>GitCommit (src/git/models/commit.ts)\<close>

datatype GitCommitType = Blame | Branch | File | Stash | StashFile

record GitCommit =
  commitType :: GitCommitType
  originalFileName :: "string option"
  previousFileName :: "string option"
  workingFileName :: "string option"
  priv_fileName :: string
  priv_previousSha :: "string option"
  priv_isStagedUncommitted :: "bool option"
  priv_isUncommitted :: "bool option"
  priv_shortSha :: "string option"
  commit_repoPath :: string
  commit_sha :: string
  author :: string
  date :: nat
  message :: string
  priv_resolvedPreviousFileSha :: "string option"

text \<open>The constructor: \<open>this._fileName = fileName || ''\<close>; the caches start unset.\<close>

definition GitCommit_new ::
  "GitCommitType \<Rightarrow> string \<Rightarrow> string \<Rightarrow> string \<Rightarrow> nat \<Rightarrow> string \<Rightarrow> string option \<Rightarrow>
   string option \<Rightarrow> string option \<Rightarrow> string option \<Rightarrow> GitCommit" where
  "GitCommit_new ty repoPath sha auth dt msg fileName origFileName prevSha prevFileName =
     \<lparr>commitType = ty,
      originalFileName = origFileName,
      previousFileName = prevFileName,
      workingFileName = None,
      priv_fileName = (case js_or fileName (Some []) of None \<Rightarrow> [] | Some f \<Rightarrow> f),
      priv_previousSha = prevSha,
      priv_isStagedUncommitted = None,
      priv_isUncommitted = None,
      priv_shortSha = None,
      commit_repoPath = repoPath,
      commit_sha = sha,
      author = auth,
      date = dt,
      message = msg,
      priv_resolvedPreviousFileSha = None\<rparr>"

definition isFile :: "GitCommit \<Rightarrow> bool" where
  "isFile c = (commitType c = Blame \<or> commitType c = File \<or> commitType c = StashFile)"

definition isStash :: "GitCommit \<Rightarrow> bool" where
  "isStash c = (commitType c = Stash \<or> commitType c = StashFile)"

definition fileName :: "GitCommit \<Rightarrow> string" where
  "fileName c = (if isFile c then priv_fileName c else [])"

definition previousSha :: "GitCommit \<Rightarrow> string option" where
  "previousSha c = priv_previousSha c"

text \<open>The setter of \<open>previousSha\<close>: returns at once on an equal value.\<close>

definition set_previousSha :: "string option \<Rightarrow> GitCommit \<Rightarrow> GitCommit" where
  "set_previousSha v c =
     (if v = priv_previousSha c then c
      else c\<lparr>priv_previousSha := v, priv_resolvedPreviousFileSha := None\<rparr>)"

definition uri :: "string \<Rightarrow> GitCommit \<Rightarrow> error + Uri" where
  "uri cwd c =
     (case path_resolve cwd [Some (commit_repoPath c), Some (fileName c)] of
        Inl e \<Rightarrow> Inl e
      | Inr p \<Rightarrow> Inr (Uri_file p))"

definition previousUri :: "string \<Rightarrow> GitCommit \<Rightarrow> error + Uri" where
  "previousUri cwd c =
     (if truthy (previousFileName c) then
        (case path_resolve cwd
                [Some (commit_repoPath c), js_or (previousFileName c) (originalFileName c)] of
           Inl e \<Rightarrow> Inl e
         | Inr p \<Rightarrow> Inr (Uri_file p))
      else uri cwd c)"

text \<open>
  \<open>getChangedValue(change, original)\<close>: the change is \<open>undefined\<close> (omitted), \<open>null\<close>
  (clear) or a value; the result is the original for \<open>undefined\<close>, \<open>undefined\<close> for \<open>null\<close>
  and the change otherwise.
\<close>

datatype 'a change = Omitted | Clear | Value 'a

definition getChangedValue :: "'a change \<Rightarrow> 'a option \<Rightarrow> 'a option" where
  "getChangedValue chg original =
     (case chg of
        Omitted \<Rightarrow> original
      | Clear \<Rightarrow> None
      | Value v \<Rightarrow> Some v)"

text \<open>
  The argument of \<open>with\<close>, as declared in commit.ts:
  \<open>{ type?, sha?, fileName?, originalFileName?: string | null, previousFileName?: string | null,
  previousSha?: string | null }\<close>. \<open>type\<close>, \<open>sha\<close> and \<open>fileName\<close> are given or left out;
  the declaration admits \<open>null\<close> for the other three only.
\<close>

record changes =
  chg_type :: "GitCommitType option"
  chg_sha :: "string option"
  chg_fileName :: "string option"
  chg_originalFileName :: "string change"
  chg_previousFileName :: "string change"
  chg_previousSha :: "string change"

definition noChanges :: changes where
  "noChanges =
     \<lparr>chg_type = None, chg_sha = None, chg_fileName = None, chg_originalFileName = Omitted,
      chg_previousFileName = Omitted, chg_previousSha = Omitted\<rparr>"

text \<open>
  Modelled from the spec: \<open>with\<close> is abstract in GitCommit and no class that implements it
  is among the sources. The specification describes it (as \<open>withChanges\<close>) as producing
  a new record identical except for the supplied fields, a field set to the clear
  sentinel becoming unset and a field left out keeping the original value. The three
  fields that admit the sentinel go through \<open>getChangedValue\<close>, which is the source's;
  every field that \<open>changes\<close> does not name is copied.
\<close>

definition withChanges :: "GitCommit \<Rightarrow> changes \<Rightarrow> GitCommit" where
  "withChanges this chg =
     this\<lparr>commitType := (case chg_type chg of None \<Rightarrow> commitType this | Some t \<Rightarrow> t),
          commit_sha := (case chg_sha chg of None \<Rightarrow> commit_sha this | Some x \<Rightarrow> x),
          priv_fileName := (case chg_fileName chg of None \<Rightarrow> priv_fileName this | Some f \<Rightarrow> f),
          originalFileName := getChangedValue (chg_originalFileName chg) (originalFileName this),
          previousFileName := getChangedValue (chg_previousFileName chg) (previousFileName this),
          priv_previousSha := getChangedValue (chg_previousSha chg) (priv_previousSha this)\<rparr>"

text \<open>
  Modelled from the spec: commits are objects, and "a new record, never in-place mutation
  of the original" is a statement about the objects that exist. A store is the list of
  the commits allocated so far, an object reference is a position in it. \<open>with\<close>, called
  on the object at position \<open>this\<close>, allocates the changed copy at the end of the store
  and returns its position; called on a reference that names no object it raises
  TypeError.
\<close>

type_synonym store = "GitCommit list"

definition withInStore :: "store \<Rightarrow> nat \<Rightarrow> changes \<Rightarrow> error + nat \<times> store" where
  "withInStore st this chg =
     (if this < length st then Inr (length st, st @ [withChanges (st ! this) chg])
      else Inl TypeError)"

text \<open>
  The argument that \<open>resolvePreviousFileSha\<close> passes for the file:
  \<open>this.fileName ? this.previousUri : undefined\<close>.
\<close>

definition previousUriArg :: "string \<Rightarrow> GitCommit \<Rightarrow> error + Uri option" where
  "previousUriArg cwd c =
     (if fileName c \<noteq> [] then
        (case previousUri cwd c of Inl e \<Rightarrow> Inl e | Inr u \<Rightarrow> Inr (Some u))
      else Inr None)"

text \<open>
  \<open>resolvePreviousFileSha\<close> runs against the external resolver \<open>git.resolveReference\<close>,
  which answers from a state of its own (the repository) and may reject. A session holds
  the commit, the resolver's state and the list of calls made to the resolver so far.
  \<open>previousFileSha\<close> is abstract in GitCommit and is a parameter here.
\<close>

type_synonym resolveCall = "string \<times> string \<times> Uri option"

type_synonym 'w resolver = "'w \<Rightarrow> string \<Rightarrow> string \<Rightarrow> Uri option \<Rightarrow> (error + string) \<times> 'w"

record 'w session =
  commit :: GitCommit
  world :: 'w
  calls :: "resolveCall list"

text \<open>
  The method is asynchronous, and other code can run on the same commit while it waits
  at its \<open>await\<close>; it is split there. \<open>resolveStart\<close> is what runs before the \<open>await\<close>: the
  test of the cache, the evaluation of the arguments and the call of the resolver. It
  either returns to the caller at once (the cache is set, or an argument raised) or is
  left waiting for the resolver's answer. \<open>resolveFinish\<close> is what runs after the
  \<open>await\<close>, on the commit as it is by then: an answer is stored in the cache, a
  rejection is raised to the caller and nothing is stored.
\<close>

datatype started = Returned "error + unit" | Awaiting "error + string"

definition resolveStart ::
  "string \<Rightarrow> (GitCommit \<Rightarrow> string) \<Rightarrow> 'w resolver \<Rightarrow> 'w session \<Rightarrow> started \<times> 'w session" where
  "resolveStart cwd previousFileSha resolveReference s =
     (let c = commit s in
      if priv_resolvedPreviousFileSha c \<noteq> None then (Returned (Inr ()), s)
      else
        (case previousUriArg cwd c of
           Inl e \<Rightarrow> (Returned (Inl e), s)
         | Inr u \<Rightarrow>
             (case resolveReference (world s) (commit_repoPath c) (previousFileSha c) u of
                (answer, w) \<Rightarrow>
                  (Awaiting answer,
                   s\<lparr>world := w,
                     calls := calls s @ [(commit_repoPath c, previousFileSha c, u)]\<rparr>))))"

definition resolveFinish :: "started \<Rightarrow> 'w session \<Rightarrow> (error + unit) \<times> 'w session" where
  "resolveFinish st s =
     (case st of
        Returned r \<Rightarrow> (r, s)
      | Awaiting (Inl e) \<Rightarrow> (Inl e, s)
      | Awaiting (Inr v) \<Rightarrow>
          (Inr (), s\<lparr>commit := (commit s)\<lparr>priv_resolvedPreviousFileSha := Some v\<rparr>\<rparr>))"

text \<open>
  A call of \<open>resolvePreviousFileSha\<close> that runs to completion with nothing in between:
  the start, and at once the finish.
\<close>

definition resolvePreviousFileSha ::
  "string \<Rightarrow> (GitCommit \<Rightarrow> string) \<Rightarrow> 'w resolver \<Rightarrow> 'w session \<Rightarrow> (error + unit) \<times> 'w session" where
  "resolvePreviousFileSha cwd previousFileSha resolveReference s =
     (case resolveStart cwd previousFileSha resolveReference s of
        (st, s1) \<Rightarrow> resolveFinish st s1)"






section \<open>GitUri (src/git/gitUri.ts)\<close>

text \<open>
  What gitUri.ts takes from its imports and from the runtime: the working directory of
  the process, the scheme constant \<open>DocumentSchemes.GitLensGit\<close>, the static helpers of
  GitService (\<open>isStagedUncommitted\<close>, \<open>isUncommitted\<close>, \<open>shortenSha\<close>,
  \<open>normalizePath\<close>) and the default separator \<open>Strings.pad(GlyphChars.Dot, 2, 2)\<close>.
  They are parameters of the model.
\<close>

record Env =
  cwd :: string
  GitLensGit :: string
  isStagedUncommitted :: "string option \<Rightarrow> bool"
  isUncommitted :: "string option \<Rightarrow> bool"
  shortenSha :: "string \<Rightarrow> string"
  normalizePath :: "string \<Rightarrow> string"
  dotSeparator :: string

record IGitCommitInfo =
  info_fileName :: "string option"
  info_repoPath :: string
  info_sha :: "string option"

record IGitStatusFile =
  status_fileName :: string
  status_originalFileName :: "string option"

record GitUri = Uri +
  repoPath :: "string option"
  sha :: "string option"

datatype commitOrRepoPath = RepoPathArg string | CommitArg IGitCommitInfo

text \<open>
  The sha a GitUri keeps. Both branches of the constructor that set \<open>this.sha\<close> do it
  under the same test, \<open>isStagedUncommitted(sha) || !isUncommitted(sha)\<close>.
\<close>

definition keptSha :: "Env \<Rightarrow> string option \<Rightarrow> string option" where
  "keptSha env s = (if isStagedUncommitted env s \<or> \<not> isUncommitted env s then s else None)"

text \<open>
  The constructor \<open>new GitUri(uri?, commitOrRepoPath?)\<close>. The base constructor stores the
  five components as they are given.
\<close>

definition GitUri_new :: "Env \<Rightarrow> Uri option \<Rightarrow> commitOrRepoPath option \<Rightarrow> error + GitUri" where
  "GitUri_new env uriArg commitOrRepoPath =
     (case uriArg of
        None \<Rightarrow>
          Inr \<lparr>scheme = [], authority = [], path = [], query = [], fragment = [],
               repoPath = None, sha = None\<rparr>
      | Some u \<Rightarrow>
          if scheme u = GitLensGit env then
            (case JSON_parse (query u) of
               Inl e \<Rightarrow> Inl e
             | Inr data \<Rightarrow>
                 (case path_resolve (cwd env) [getProp data ''repoPath'', getProp data ''fileName''] of
                    Inl e \<Rightarrow> Inl e
                  | Inr p \<Rightarrow>
                      Inr \<lparr>scheme = scheme u, authority = authority u, path = p,
                           query = query u, fragment = fragment u,
                           repoPath = getProp data ''repoPath'',
                           sha = keptSha env (getProp data ''sha'')\<rparr>))
          else
            (case commitOrRepoPath of
               None \<Rightarrow>
                 Inr \<lparr>scheme = scheme u, authority = authority u, path = path u,
                      query = query u, fragment = fragment u, repoPath = None, sha = None\<rparr>
             | Some (RepoPathArg r) \<Rightarrow>
                 Inr \<lparr>scheme = scheme u, authority = authority u, path = path u,
                      query = query u, fragment = fragment u, repoPath = Some r, sha = None\<rparr>
             | Some (CommitArg ci) \<Rightarrow>
                 (case path_resolve (cwd env)
                         [Some (info_repoPath ci), js_or (info_fileName ci) (Some (fsPath u))] of
                    Inl e \<Rightarrow> Inl e
                  | Inr p \<Rightarrow>
                      Inr \<lparr>scheme = scheme u, authority = authority u, path = p,
                           query = query u, fragment = fragment u,
                           repoPath = Some (info_repoPath ci),
                           sha = keptSha env (info_sha ci)\<rparr>)))"

definition fromRevisionUri :: "Env \<Rightarrow> Uri \<Rightarrow> error + GitUri" where
  "fromRevisionUri env u = GitUri_new env (Some u) None"

text \<open>\<open>get shortSha\<close>: \<open>this.sha && GitService.shortenSha(this.sha)\<close>.\<close>

definition shortSha :: "Env \<Rightarrow> GitUri \<Rightarrow> string option" where
  "shortSha env u = (if truthy (sha u) then map_option (shortenSha env) (sha u) else sha u)"

text \<open>
  \<open>getFormattedPath(separator, relativeTo)\<close>; an argument that is left out is \<open>None\<close>.
\<close>

definition getFormattedPath :: "Env \<Rightarrow> GitUri \<Rightarrow> string option \<Rightarrow> string option \<Rightarrow> string" where
  "getFormattedPath env u separator relativeTo =
     (let sep = (case separator of None \<Rightarrow> dotSeparator env | Some s \<Rightarrow> s);
          d0 = path_dirname (fsPath u);
          d1 = (case repoPath u of
                  None \<Rightarrow> d0
                | Some r \<Rightarrow> if r \<noteq> [] then path_relative (cwd env) r d0 else d0);
          d2 = (case relativeTo of None \<Rightarrow> d1 | Some r \<Rightarrow> path_relative (cwd env) r d1);
          directory = normalizePath env d2
      in if directory = [] \<or> directory = ''.'' then path_basename (fsPath u)
         else path_basename (fsPath u) @ sep @ directory)"

text \<open>The static counterparts, on a file name, a plain locator or a GitUri.\<close>

datatype fileNameOrUri = FileNameArg string | UriArg Uri | GitUriArg GitUri

definition getDirectory :: "Env \<Rightarrow> string \<Rightarrow> string option \<Rightarrow> string" where
  "getDirectory env fileNameV relativeTo =
     (let d0 = path_dirname fileNameV;
          d1 = (case relativeTo of None \<Rightarrow> d0 | Some r \<Rightarrow> path_relative (cwd env) r d0);
          directory = normalizePath env d1
      in if directory = [] \<or> directory = ''.'' then [] else directory)"

text \<open>The part of the static \<open>getFormattedPath\<close> that follows the choice of the file name.\<close>

definition formatFileName :: "Env \<Rightarrow> string \<Rightarrow> string option \<Rightarrow> string option \<Rightarrow> string" where
  "formatFileName env fileNameV separator relativeTo =
     (let sep = (case separator of None \<Rightarrow> dotSeparator env | Some s \<Rightarrow> s);
          directory = getDirectory env fileNameV relativeTo
      in if directory = [] then path_basename fileNameV
         else path_basename fileNameV @ sep @ directory)"

definition static_getFormattedPath ::
  "Env \<Rightarrow> fileNameOrUri \<Rightarrow> string option \<Rightarrow> string option \<Rightarrow> string" where
  "static_getFormattedPath env fileNameOrUri separator relativeTo =
     (case fileNameOrUri of
        GitUriArg g \<Rightarrow> getFormattedPath env g separator relativeTo
      | UriArg u \<Rightarrow> formatFileName env (fsPath u) separator relativeTo
      | FileNameArg f \<Rightarrow> formatFileName env f separator relativeTo)"

text \<open>
  \<open>toRevisionUri\<close>, with its three overloads. A \<open>shortSha\<close> that is undefined is written
  as the text \<open>undefined\<close> by the template; a \<open>repoPath\<close> that is undefined makes
  \<open>path.relative\<close> raise.
\<close>

datatype revisionArg =
    OfGitUri GitUri
  | OfFileName string string string
  | OfStatus string IGitStatusFile string

definition revisionData :: "Env \<Rightarrow> string \<Rightarrow> string \<Rightarrow> string option \<Rightarrow> (string \<times> string option) list" where
  "revisionData env repoPathV fileNameV shaV =
     [(''fileName'', Some (normalizePath env (path_relative (cwd env) repoPathV fileNameV))),
      (''repoPath'', Some repoPathV),
      (''sha'', shaV)]"

definition revisionText :: "Env \<Rightarrow> string \<Rightarrow> string \<Rightarrow> string option \<Rightarrow> string option \<Rightarrow> string" where
  "revisionText env repoPathV fileNameV shaV shortShaV =
     (let parsed = path_parse fileNameV
      in GitLensGit env @ '':'' @ path_join [dir parsed, name parsed] @ '':''
         @ (case shortShaV of None \<Rightarrow> ''undefined'' | Some s \<Rightarrow> s) @ ext parsed @ ''?''
         @ JSON_stringify (revisionData env repoPathV fileNameV shaV))"

definition toRevisionUri :: "Env \<Rightarrow> revisionArg \<Rightarrow> error + Uri" where
  "toRevisionUri env arg =
     (case arg of
        OfFileName shaV fileNameV repoPathV \<Rightarrow>
          Uri_parse (revisionText env repoPathV fileNameV (Some shaV) (Some (shortenSha env shaV)))
      | OfStatus shaV status repoPathV \<Rightarrow>
          (case path_resolve (cwd env) [Some repoPathV, Some (status_fileName status)] of
             Inl e \<Rightarrow> Inl e
           | Inr fileNameV \<Rightarrow>
               Uri_parse (revisionText env repoPathV fileNameV (Some shaV) (Some (shortenSha env shaV))))
      | OfGitUri u \<Rightarrow>
          (case repoPath u of
             None \<Rightarrow> Inl TypeError
           | Some repoPathV \<Rightarrow>
               Uri_parse (revisionText env repoPathV (fsPath u) (sha u) (shortSha env u))))"

text \<open>
  Modelled from the spec: an instance of the parameters, for evaluating the model. The
  spec (4.3) has two sentinel ids, "staged uncommitted" and "uncommitted";
  \<open>isUncommitted\<close> holds for either sentinel, \<open>isStagedUncommitted\<close> for the first only, and
  \<open>shortenSha\<close> cuts a real id to a fixed display length (seven in the spec's example
  \<open>deadbee\<close>) and returns a sentinel as it is. The spec does not give the text of the
  sentinels: the all-zero id stands for "uncommitted", and the same followed by a colon
  for "staged uncommitted". \<open>normalizePath\<close> turns backslashes into slashes; the separator
  is a bullet between two pairs of spaces.
\<close>

definition uncommittedSha :: string where
  "uncommittedSha = ''0000000000000000000000000000000000000000''"

definition stagedUncommittedSha :: string where
  "stagedUncommittedSha = ''0000000000000000000000000000000000000000:''"

definition exampleEnv :: Env where
  "exampleEnv =
     \<lparr>cwd = ''/home/user'',
      GitLensGit = ''gitlens-git'',
      isStagedUncommitted = (\<lambda>s. s = Some stagedUncommittedSha),
      isUncommitted = (\<lambda>s. s = Some stagedUncommittedSha \<or> s = Some uncommittedSha),
      shortenSha = (\<lambda>s. if s = stagedUncommittedSha \<or> s = uncommittedSha then s else take 7 s),
      normalizePath = map (\<lambda>c. if c = CHR 0x5C then CHR ''/'' else c),
      dotSeparator = [CHR '' '', CHR '' '', CHR 0xE2, CHR 0x80, CHR 0xA2, CHR '' '', CHR '' '']\<rparr>"

section \<open>Notions used in the statements and proofs\<close>

text \<open>
  The directory that \<open>getFormattedPath\<close> shows, in the words of the spec: the dirname of
  the path, made relative to \<open>repoPath\<close> when that is present (set and not empty), made
  relative to \<open>relativeTo\<close> when that is given, then normalized.
\<close>

definition directoryOfSpec :: "Env \<Rightarrow> GitUri \<Rightarrow> string option \<Rightarrow> string" where
  "directoryOfSpec env u relativeTo =
     normalizePath env
       ((case relativeTo of None \<Rightarrow> (\<lambda>d. d) | Some t \<Rightarrow> path_relative (cwd env) t)
          ((if truthy (repoPath u) then path_relative (cwd env) (the (repoPath u)) else (\<lambda>d. d))
             (path_dirname (fsPath u))))"

text \<open>
  A text is safe inside the locator when it has none of the characters that
  \<open>Uri.parse\<close> reads as a delimiter or as the start of an escape.
\<close>

definition uriSafe :: "string \<Rightarrow> bool" where
  "uriSafe s = (CHR ''?'' \<notin> set s \<and> CHR ''#'' \<notin> set s \<and> CHR ''%'' \<notin> set s)"

text \<open>The characters that \<open>JSON.stringify\<close> adds to the strings it writes.\<close>

definition jsonSyntax :: "char set" where
  "jsonSyntax = set [CHR ''{'', CHR ''}'', CHR '':'', CHR '','', CHR 0x22, CHR 0x5C]
                \<union> set ''bfnrtu0123456789abcdef''"

text \<open>A segment that normalization keeps as it is, and a normalized absolute path.\<close>

definition normalSeg :: "string \<Rightarrow> bool" where
  "normalSeg s = (s \<noteq> [] \<and> s \<noteq> ''.'' \<and> s \<noteq> ''..'' \<and> CHR ''/'' \<notin> set s)"

definition normalSegs :: "string list \<Rightarrow> bool" where
  "normalSegs ss = list_all normalSeg ss"

definition absPath :: "string list \<Rightarrow> string" where
  "absPath ss = CHR ''/'' # joinSegs ss"

text \<open>The tokens of a list of members.\<close>

fun memberTokens :: "(string \<times> string) list \<Rightarrow> token list" where
  "memberTokens [] = []"
| "memberTokens [(k, v)] = [Str k, Colon, Str v]"
| "memberTokens ((k, v) # m # ms) = Str k # Colon # Str v # Comma # memberTokens (m # ms)"

section \<open>Fixtures for evaluation\<close>

text \<open>
  A commit of a renamed file, an implementation of the abstract \<open>previousFileSha\<close>, and a
  resolver that rejects its first call and answers every later one.
\<close>

definition exampleCommit :: GitCommit where
  "exampleCommit =
     GitCommit_new File ''/repo'' ''4d3c2b1a'' ''ann'' 0 ''rename'' (Some ''new.ts'') None
       (Some ''0a1b2c3d'') (Some ''old.ts'')"

definition examplePreviousFileSha :: "GitCommit \<Rightarrow> string" where
  "examplePreviousFileSha c =
     (case priv_previousSha c of None \<Rightarrow> commit_sha c @ ''^'' | Some p \<Rightarrow> p)"

definition exampleResolver :: "nat resolver" where
  "exampleResolver w repo ref u =
     (if w = 0 then Inl (GitError ''unknown revision'') else Inr (take 8 ref), Suc w)"

definition exampleCall :: resolveCall where
  "exampleCall =
     (''/repo'', ''0a1b2c3d'',
      Some \<lparr>scheme = ''file'', authority = [], path = ''/repo/old.ts'', query = [], fragment = []\<rparr>)"

text \<open>A file directly under the root of its repository.\<close>

definition exampleGitUri :: GitUri where
  "exampleGitUri =
     \<lparr>scheme = ''file'', authority = [], path = ''/repo/a.ts'', query = [], fragment = [],
      repoPath = Some ''/repo'', sha = None\<rparr>"

section \<open>Properties of GitCommit\<close>

text \<open>
  C5: the observable \<open>fileName\<close> is the stored file name when the type is Blame, File or
  StashFile and the empty string for Branch and Stash (so it equals the stored name exactly
  when the type is one of the three or the stored name is itself empty); \<open>isFile\<close> holds
  exactly on Blame, File, StashFile and \<open>isStash\<close> exactly on Stash, StashFile.
\<close>

theorem fileName_by_type:
  "fileName c = (if commitType c \<in> {Blame, File, StashFile} then priv_fileName c else [])
   \<and> (fileName c = priv_fileName c) = (commitType c \<in> {Blame, File, StashFile} \<or> priv_fileName c = [])
   \<and> isFile c = (commitType c \<in> {Blame, File, StashFile})
   \<and> isStash c = (commitType c \<in> {Stash, StashFile})"
  by (auto simp: fileName_def isFile_def isStash_def)

text \<open>
  C10: assigning to \<open>previousSha\<close> the value it already holds changes nothing: the
  commit, with its cache of the resolved previous sha, is returned as it was.
\<close>

theorem set_previousSha_same_value:
  "set_previousSha (previousSha c) c = c"
  by (simp add: set_previousSha_def previousSha_def)

lemma resolveLoop_Some: "\<exists>r. resolveLoop (map Some xs @ [Some c]) acc = Inr r"
  by (induction xs arbitrary: acc) auto

lemma path_resolve_Some: "path_resolve d (map Some xs) = Inr (resolveStr d xs)"
proof -
  obtain r where "resolveLoop (map Some (rev xs) @ [Some d]) [] = Inr r"
    using resolveLoop_Some by blast
  then show ?thesis
    by (cases r) (simp add: resolveStr_def path_resolve_def rev_map Let_def)
qed

lemma path_resolve_two: "path_resolve d [Some a, Some b] = Inr (resolveStr d [a, b])"
  using path_resolve_Some [of d "[a, b]"] by simp

lemma resolveLoop_absolute:
  "path_isAbsolute d \<Longrightarrow> \<exists>r. resolveLoop (map Some xs @ [Some d]) acc = Inr (r, True)"
  by (induction xs arbitrary: acc) (auto simp: path_isAbsolute_def)

lemma resolveStr_absolute:
  assumes "path_isAbsolute d"
  shows "path_isAbsolute (resolveStr d xs)"
proof -
  obtain r where "resolveLoop (map Some (rev xs) @ [Some d]) [] = Inr (r, True)"
    using resolveLoop_absolute [OF assms] by blast
  then show ?thesis
    by (simp add: resolveStr_def path_resolve_def rev_map Let_def path_isAbsolute_def)
qed

lemma uri_eq: "uri d c = Inr (Uri_file (resolveStr d [commit_repoPath c, fileName c]))"
  by (simp add: uri_def path_resolve_two)

text \<open>
  What the getter computes: with \<open>previousFileName\<close> set and not empty, the file locator
  of \<open>previousFileName\<close> resolved against \<open>repoPath\<close>; in every other case the commit's own
  \<open>uri\<close>, whatever \<open>originalFileName\<close> is.
\<close>

lemma previousUri_eq:
  "previousUri d c =
     (case previousFileName c of
        None \<Rightarrow> uri d c
      | Some p \<Rightarrow> if p = [] then uri d c
                  else Inr (Uri_file (resolveStr d [commit_repoPath c, p])))"
  by (cases "previousFileName c") (simp_all add: previousUri_def js_or_def path_resolve_two)

lemma resolveStr_ex1: "resolveStr ''/home/user'' [''/repo'', ''new.ts''] = ''/repo/new.ts''"
  by (simp add: resolveStr_def path_resolve_def normalizeString_def normalizeSegs_def normalizeStep_def)

lemma resolveStr_ex2: "resolveStr ''/home/user'' [''/repo'', ''old.ts''] = ''/repo/old.ts''"
  by (simp add: resolveStr_def path_resolve_def normalizeString_def normalizeSegs_def normalizeStep_def)

text \<open>
  C4: for a commit whose \<open>previousFileName\<close> is unset, \<open>previousUri\<close> is to resolve
  \<open>originalFileName\<close> against \<open>repoPath\<close>. The getter is evaluated at a commit of the file
  \<open>new.ts\<close> in \<open>/repo\<close> with \<open>previousFileName\<close> unset and \<open>originalFileName\<close> \<open>old.ts\<close>: it
  returns the locator of \<open>/repo/new.ts\<close>, the current file, where \<open>originalFileName\<close>
  resolved against the root is \<open>/repo/old.ts\<close>. The getter writes the fallback,
  \<open>this.previousFileName || this.originalFileName\<close>, inside the branch that it enters only
  when \<open>previousFileName\<close> is set, so the fallback is never taken.
\<close>

theorem previousUri_ignores_originalFileName:
  "previousUri ''/home/user''
     (GitCommit_new File ''/repo'' ''4d3c2b1a'' ''ann'' 0 ''rename'' (Some ''new.ts'') (Some ''old.ts'')
        (Some ''0a1b2c3d'') None)
   = Inr \<lparr>scheme = ''file'', authority = [], path = ''/repo/new.ts'', query = [], fragment = []\<rparr>
   \<and> resolveStr ''/home/user'' [''/repo'', ''old.ts''] = ''/repo/old.ts''"
  by (simp add: previousUri_def uri_eq GitCommit_new_def js_or_def fileName_def isFile_def
      resolveStr_ex1 resolveStr_ex2 Uri_file_def)

text \<open>
  C8: the copy with overrides. \<open>getChangedValue\<close> gives the original for a change that is
  left out, unset for the clear sentinel and the supplied value otherwise. In the commit
  that \<open>with\<close> returns, \<open>originalFileName\<close>, \<open>previousFileName\<close> and \<open>previousSha\<close> are what
  \<open>getChangedValue\<close> gives for their change; \<open>type\<close>, \<open>sha\<close> and the stored file name, for
  which the declaration admits no sentinel, are the original when left out and the
  supplied value otherwise; repository path, author, date, message and working file name
  are the original's, and with nothing supplied the result equals the original in every
  field. Called on an object of the store, \<open>with\<close> returns a reference to a new
  object, different from the one it was called on, and every
  object that existed before, the original among them, is as it was.
\<close>

theorem withChanges_copy_with_overrides:
  "getChangedValue Omitted original = original
   \<and> getChangedValue Clear original = None
   \<and> getChangedValue (Value x) original = Some x
   \<and> originalFileName (withChanges c chg)
       = getChangedValue (chg_originalFileName chg) (originalFileName c)
   \<and> previousFileName (withChanges c chg)
       = getChangedValue (chg_previousFileName chg) (previousFileName c)
   \<and> previousSha (withChanges c chg) = getChangedValue (chg_previousSha chg) (previousSha c)
   \<and> commitType (withChanges c chg) = (case chg_type chg of None \<Rightarrow> commitType c | Some t \<Rightarrow> t)
   \<and> commit_sha (withChanges c chg) = (case chg_sha chg of None \<Rightarrow> commit_sha c | Some i \<Rightarrow> i)
   \<and> priv_fileName (withChanges c chg)
       = (case chg_fileName chg of None \<Rightarrow> priv_fileName c | Some f \<Rightarrow> f)
   \<and> commit_repoPath (withChanges c chg) = commit_repoPath c
   \<and> author (withChanges c chg) = author c
   \<and> date (withChanges c chg) = date c
   \<and> message (withChanges c chg) = message c
   \<and> workingFileName (withChanges c chg) = workingFileName c
   \<and> withChanges c noChanges = c
   \<and> (this < length st \<longrightarrow>
        (\<exists>new st'. withInStore st this chg = Inr (new, st')
           \<and> new \<noteq> this
           \<and> new < length st'
           \<and> st' ! new = withChanges (st ! this) chg
           \<and> (\<forall>a. a < length st \<longrightarrow> st' ! a = st ! a)))"
  by (simp add: getChangedValue_def withChanges_def previousSha_def noChanges_def withInStore_def
      nth_append)

text \<open>
  Witness for C8: clearing \<open>previousFileName\<close> of a commit whose \<open>previousFileName\<close> is
  \<open>old.ts\<close> gives a second object, with \<open>previousFileName\<close> unset and every other field as
  in the first; the first object still has its \<open>previousFileName\<close>.
\<close>

theorem withChanges_copy_with_overrides_witness:
  "withInStore [exampleCommit] 0 (noChanges\<lparr>chg_previousFileName := Clear\<rparr>)
   = Inr (1, [exampleCommit, exampleCommit\<lparr>previousFileName := None\<rparr>])
   \<and> previousFileName exampleCommit = Some ''old.ts''"
proof -
  have "withChanges exampleCommit (noChanges\<lparr>chg_previousFileName := Clear\<rparr>)
        = exampleCommit\<lparr>previousFileName := None\<rparr>"
    by (simp add: withChanges_def noChanges_def getChangedValue_def)
  moreover have "previousFileName exampleCommit = Some ''old.ts''"
    by (simp add: exampleCommit_def GitCommit_new_def)
  ultimately show ?thesis
    using withChanges_copy_with_overrides
      [where c = exampleCommit and chg = "noChanges\<lparr>chg_previousFileName := Clear\<rparr>"
         and this = 0 and st = "[exampleCommit]"]
    by (simp add: withInStore_def)
qed

lemma previousUri_total: "\<exists>u. previousUri d c = Inr u"
  by (cases "previousFileName c")
     (simp_all add: previousUri_def js_or_def path_resolve_two uri_eq)

lemma previousUriArg_total: "\<exists>u. previousUriArg d c = Inr u"
proof (cases "fileName c = []")
  case True
  then show ?thesis by (simp add: previousUriArg_def)
next
  case False
  obtain u where "previousUri d c = Inr u"
    using previousUri_total by blast
  with False show ?thesis by (simp add: previousUriArg_def)
qed

lemma resolveStart_cached:
  "priv_resolvedPreviousFileSha (commit s) \<noteq> None \<Longrightarrow>
   resolveStart d pfs rr s = (Returned (Inr ()), s)"
  by (simp add: resolveStart_def Let_def)

lemma resolveStart_uncached:
  assumes "priv_resolvedPreviousFileSha (commit s) = None"
    and "previousUriArg d (commit s) = Inr u"
    and "rr (world s) (commit_repoPath (commit s)) (pfs (commit s)) u = (answer, w)"
  shows "resolveStart d pfs rr s =
         (Awaiting answer,
          s\<lparr>world := w, calls := calls s @ [(commit_repoPath (commit s), pfs (commit s), u)]\<rparr>)"
  using assms by (simp add: resolveStart_def Let_def)



lemma resolve_cached:
  "priv_resolvedPreviousFileSha (commit s) \<noteq> None \<Longrightarrow>
   resolvePreviousFileSha d pfs rr s = (Inr (), s)"
  by (simp add: resolvePreviousFileSha_def resolveStart_cached resolveFinish_def)

lemma resolve_success:
  assumes "priv_resolvedPreviousFileSha (commit s) = None"
    and "previousUriArg d (commit s) = Inr u"
    and "rr (world s) (commit_repoPath (commit s)) (pfs (commit s)) u = (Inr v, w)"
  shows "resolvePreviousFileSha d pfs rr s =
         (Inr (), s\<lparr>commit := (commit s)\<lparr>priv_resolvedPreviousFileSha := Some v\<rparr>,
                    world := w,
                    calls := calls s @ [(commit_repoPath (commit s), pfs (commit s), u)]\<rparr>)"
  using assms
  by (simp add: resolvePreviousFileSha_def resolveStart_def resolveFinish_def Let_def)

lemma resolve_failure:
  assumes "priv_resolvedPreviousFileSha (commit s) = None"
    and "previousUriArg d (commit s) = Inr u"
    and "rr (world s) (commit_repoPath (commit s)) (pfs (commit s)) u = (Inl e, w)"
  shows "resolvePreviousFileSha d pfs rr s =
         (Inl e, s\<lparr>world := w,
                   calls := calls s @ [(commit_repoPath (commit s), pfs (commit s), u)]\<rparr>)"
  using assms
  by (simp add: resolvePreviousFileSha_def resolveStart_def resolveFinish_def Let_def)

lemma resolve_uncached_calls:
  assumes "priv_resolvedPreviousFileSha (commit s) = None"
    and "previousUriArg d (commit s) = Inr u"
  shows "\<exists>r s'. resolvePreviousFileSha d pfs rr s = (r, s')
           \<and> calls s' = calls s @ [(commit_repoPath (commit s), pfs (commit s), u)]
           \<and> (\<forall>v w. rr (world s) (commit_repoPath (commit s)) (pfs (commit s)) u = (Inr v, w)
                \<longrightarrow> r = Inr () \<and> priv_resolvedPreviousFileSha (commit s') = Some v)
           \<and> (\<forall>e w. rr (world s) (commit_repoPath (commit s)) (pfs (commit s)) u = (Inl e, w)
                \<longrightarrow> r = Inl e \<and> commit s' = commit s)"
proof (cases "rr (world s) (commit_repoPath (commit s)) (pfs (commit s)) u")
  case (Pair res w)
  show ?thesis
  proof (cases res)
    case (Inl e)
    with Pair assms show ?thesis by (simp add: resolve_failure)
  next
    case (Inr v)
    with Pair assms show ?thesis by (simp add: resolve_success)
  qed
qed

text \<open>
  C6: when the cache holds a value, \<open>resolvePreviousFileSha\<close> returns without calling
  the resolver and changes nothing. When the cache is empty, the resolver is called once;
  if it answers, the answer is cached and the next call is such a no-op; if it rejects,
  the error goes to the caller, the commit and its empty cache are unchanged, and the
  next call calls the resolver again.
\<close>

theorem resolvePreviousFileSha_memoized:
  "(priv_resolvedPreviousFileSha (commit s) \<noteq> None \<longrightarrow>
      resolvePreviousFileSha d pfs rr s = (Inr (), s))
   \<and> (priv_resolvedPreviousFileSha (commit s) = None \<longrightarrow>
      (\<exists>u. previousUriArg d (commit s) = Inr u
        \<and> (\<forall>v w. rr (world s) (commit_repoPath (commit s)) (pfs (commit s)) u = (Inr v, w) \<longrightarrow>
             (\<exists>s'. resolvePreviousFileSha d pfs rr s = (Inr (), s')
                \<and> priv_resolvedPreviousFileSha (commit s') = Some v
                \<and> world s' = w
                \<and> calls s' = calls s @ [(commit_repoPath (commit s), pfs (commit s), u)]
                \<and> resolvePreviousFileSha d pfs rr s' = (Inr (), s')))
        \<and> (\<forall>e w. rr (world s) (commit_repoPath (commit s)) (pfs (commit s)) u = (Inl e, w) \<longrightarrow>
             (\<exists>s'. resolvePreviousFileSha d pfs rr s = (Inl e, s')
                \<and> commit s' = commit s
                \<and> priv_resolvedPreviousFileSha (commit s') = None
                \<and> world s' = w
                \<and> calls s' = calls s @ [(commit_repoPath (commit s), pfs (commit s), u)]
                \<and> (\<exists>r s''. resolvePreviousFileSha d pfs rr s' = (r, s'')
                      \<and> calls s'' = calls s' @ [(commit_repoPath (commit s), pfs (commit s), u)])))))"
proof (intro conjI impI)
  assume "priv_resolvedPreviousFileSha (commit s) \<noteq> None"
  then show "resolvePreviousFileSha d pfs rr s = (Inr (), s)" by (rule resolve_cached)
next
  assume unset: "priv_resolvedPreviousFileSha (commit s) = None"
  obtain u where u: "previousUriArg d (commit s) = Inr u"
    using previousUriArg_total by blast
  let ?call = "(commit_repoPath (commit s), pfs (commit s), u)"
  have ok: "\<exists>s'. resolvePreviousFileSha d pfs rr s = (Inr (), s')
                \<and> priv_resolvedPreviousFileSha (commit s') = Some v
                \<and> world s' = w
                \<and> calls s' = calls s @ [?call]
                \<and> resolvePreviousFileSha d pfs rr s' = (Inr (), s')"
    if "rr (world s) (commit_repoPath (commit s)) (pfs (commit s)) u = (Inr v, w)" for v w
  proof -
    let ?s' = "s\<lparr>commit := (commit s)\<lparr>priv_resolvedPreviousFileSha := Some v\<rparr>,
                  world := w, calls := calls s @ [?call]\<rparr>"
    have "resolvePreviousFileSha d pfs rr s = (Inr (), ?s')"
      using unset u that by (rule resolve_success)
    moreover have "resolvePreviousFileSha d pfs rr ?s' = (Inr (), ?s')"
      by (rule resolve_cached) simp
    ultimately show ?thesis by simp
  qed
  have bad: "\<exists>s'. resolvePreviousFileSha d pfs rr s = (Inl e, s')
                \<and> commit s' = commit s
                \<and> priv_resolvedPreviousFileSha (commit s') = None
                \<and> world s' = w
                \<and> calls s' = calls s @ [?call]
                \<and> (\<exists>r s''. resolvePreviousFileSha d pfs rr s' = (r, s'')
                      \<and> calls s'' = calls s' @ [?call])"
    if "rr (world s) (commit_repoPath (commit s)) (pfs (commit s)) u = (Inl e, w)" for e w
  proof -
    let ?s' = "s\<lparr>world := w, calls := calls s @ [?call]\<rparr>"
    have first: "resolvePreviousFileSha d pfs rr s = (Inl e, ?s')"
      using unset u that by (rule resolve_failure)
    have "\<exists>r s''. resolvePreviousFileSha d pfs rr ?s' = (r, s'')
            \<and> calls s'' = calls ?s' @ [(commit_repoPath (commit ?s'), pfs (commit ?s'), u)]"
      using resolve_uncached_calls [of ?s' d u pfs rr] unset u by auto
    with first unset show ?thesis by simp
  qed
  from u ok bad
  show "\<exists>u. previousUriArg d (commit s) = Inr u
        \<and> (\<forall>v w. rr (world s) (commit_repoPath (commit s)) (pfs (commit s)) u = (Inr v, w) \<longrightarrow>
             (\<exists>s'. resolvePreviousFileSha d pfs rr s = (Inr (), s')
                \<and> priv_resolvedPreviousFileSha (commit s') = Some v
                \<and> world s' = w
                \<and> calls s' = calls s @ [(commit_repoPath (commit s), pfs (commit s), u)]
                \<and> resolvePreviousFileSha d pfs rr s' = (Inr (), s')))
        \<and> (\<forall>e w. rr (world s) (commit_repoPath (commit s)) (pfs (commit s)) u = (Inl e, w) \<longrightarrow>
             (\<exists>s'. resolvePreviousFileSha d pfs rr s = (Inl e, s')
                \<and> commit s' = commit s
                \<and> priv_resolvedPreviousFileSha (commit s') = None
                \<and> world s' = w
                \<and> calls s' = calls s @ [(commit_repoPath (commit s), pfs (commit s), u)]
                \<and> (\<exists>r s''. resolvePreviousFileSha d pfs rr s' = (r, s'')
                      \<and> calls s'' = calls s' @ [(commit_repoPath (commit s), pfs (commit s), u)])))"
    by blast
qed





lemma exampleCommit_arg:
  "previousUriArg ''/home/user'' exampleCommit =
   Inr (Some \<lparr>scheme = ''file'', authority = [], path = ''/repo/old.ts'', query = [], fragment = []\<rparr>)"
  by (simp add: previousUriArg_def previousUri_def exampleCommit_def GitCommit_new_def js_or_def
      fileName_def isFile_def path_resolve_two resolveStr_ex2 Uri_file_def)

text \<open>
  Witness for C6: the resolver rejects the first call, answers the second, and is not
  called by the third.
\<close>

theorem resolvePreviousFileSha_memoized_witness:
  "resolvePreviousFileSha ''/home/user'' examplePreviousFileSha exampleResolver
     \<lparr>commit = exampleCommit, world = 0, calls = []\<rparr>
   = (Inl (GitError ''unknown revision''),
      \<lparr>commit = exampleCommit, world = 1, calls = [exampleCall]\<rparr>)
   \<and> resolvePreviousFileSha ''/home/user'' examplePreviousFileSha exampleResolver
     \<lparr>commit = exampleCommit, world = 1, calls = [exampleCall]\<rparr>
   = (Inr (),
      \<lparr>commit = exampleCommit\<lparr>priv_resolvedPreviousFileSha := Some ''0a1b2c3d''\<rparr>, world = 2,
       calls = [exampleCall, exampleCall]\<rparr>)
   \<and> resolvePreviousFileSha ''/home/user'' examplePreviousFileSha exampleResolver
     \<lparr>commit = exampleCommit\<lparr>priv_resolvedPreviousFileSha := Some ''0a1b2c3d''\<rparr>, world = 2,
       calls = [exampleCall, exampleCall]\<rparr>
   = (Inr (),
      \<lparr>commit = exampleCommit\<lparr>priv_resolvedPreviousFileSha := Some ''0a1b2c3d''\<rparr>, world = 2,
       calls = [exampleCall, exampleCall]\<rparr>)"
proof -
  have unset: "priv_resolvedPreviousFileSha exampleCommit = None"
    and repo: "commit_repoPath exampleCommit = ''/repo''"
    and ref: "examplePreviousFileSha exampleCommit = ''0a1b2c3d''"
    by (simp_all add: exampleCommit_def GitCommit_new_def examplePreviousFileSha_def)
  have third: "resolvePreviousFileSha ''/home/user'' examplePreviousFileSha exampleResolver
     \<lparr>commit = exampleCommit\<lparr>priv_resolvedPreviousFileSha := Some ''0a1b2c3d''\<rparr>, world = 2,
       calls = [exampleCall, exampleCall]\<rparr>
   = (Inr (),
      \<lparr>commit = exampleCommit\<lparr>priv_resolvedPreviousFileSha := Some ''0a1b2c3d''\<rparr>, world = 2,
       calls = [exampleCall, exampleCall]\<rparr>)"
    using resolvePreviousFileSha_memoized
      [of "\<lparr>commit = exampleCommit\<lparr>priv_resolvedPreviousFileSha := Some ''0a1b2c3d''\<rparr>, world = 2,
            calls = [exampleCall, exampleCall]\<rparr>"
          "''/home/user''" examplePreviousFileSha exampleResolver]
    by simp
  have first: "resolvePreviousFileSha ''/home/user'' examplePreviousFileSha exampleResolver
     \<lparr>commit = exampleCommit, world = 0, calls = []\<rparr>
   = (Inl (GitError ''unknown revision''),
      \<lparr>commit = exampleCommit, world = 1, calls = [exampleCall]\<rparr>)"
    by (simp add: resolvePreviousFileSha_def resolveStart_def resolveFinish_def unset repo ref
        exampleCommit_arg exampleResolver_def exampleCall_def)
  have second: "resolvePreviousFileSha ''/home/user'' examplePreviousFileSha exampleResolver
     \<lparr>commit = exampleCommit, world = 1, calls = [exampleCall]\<rparr>
   = (Inr (),
      \<lparr>commit = exampleCommit\<lparr>priv_resolvedPreviousFileSha := Some ''0a1b2c3d''\<rparr>, world = 2,
       calls = [exampleCall, exampleCall]\<rparr>)"
    by (simp add: resolvePreviousFileSha_def resolveStart_def resolveFinish_def unset repo ref
        exampleCommit_arg exampleResolver_def exampleCall_def numeral_2_eq_2)
  from first second third show ?thesis by simp
qed





section \<open>Properties of the path functions\<close>

lemma segments_nonempty: "segments p \<noteq> []"
  by (induction p) (auto split: list.splits)

lemma segments_append_slash: "segments (a @ CHR ''/'' # b) = segments a @ segments b"
proof (induction a)
  case Nil
  show ?case by simp
next
  case (Cons c a)
  obtain s ss where "segments a = s # ss"
    using segments_nonempty [of a] by (cases "segments a") auto
  with Cons show ?case by simp
qed

lemma segments_no_slash: "s \<in> set (segments p) \<Longrightarrow> CHR ''/'' \<notin> set s"
proof (induction p arbitrary: s)
  case Nil
  then show ?case by simp
next
  case (Cons c p)
  then show ?case
    by (cases "segments p") (auto split: if_splits)
qed

lemma segments_single: "CHR ''/'' \<notin> set s \<Longrightarrow> segments s = [s]"
  by (induction s) auto

lemma segments_joinSegs:
  "ss \<noteq> [] \<Longrightarrow> list_all (\<lambda>s. CHR ''/'' \<notin> set s) ss \<Longrightarrow> segments (joinSegs ss) = ss"
proof (induction ss rule: joinSegs.induct)
  case 1
  then show ?case by simp
next
  case (2 s)
  then show ?case by (simp add: segments_single)
next
  case (3 s t ss)
  then show ?case by (simp add: segments_append_slash segments_single)
qed

lemma normalizeStep_normal: "normalSeg s \<Longrightarrow> normalizeStep b st s = s # st"
  by (simp add: normalizeStep_def normalSeg_def)

lemma normalizeStep_empty: "normalizeStep b st [] = st"
  by (simp add: normalizeStep_def)

lemma foldl_normal:
  "normalSegs ss \<Longrightarrow> foldl (normalizeStep b) st ss = rev ss @ st"
  by (induction ss arbitrary: st) (simp_all add: normalSegs_def normalizeStep_normal)

lemma foldl_dotdot:
  "normalSegs st \<Longrightarrow> n \<le> length st \<Longrightarrow>
   foldl (normalizeStep b) st (replicate n ''..'') = drop n st"
proof (induction n arbitrary: st)
  case 0
  then show ?case by simp
next
  case (Suc n)
  then obtain x xs where st: "st = x # xs" by (cases st) auto
  with Suc.prems have "normalSeg x" "normalSegs xs" "n \<le> length xs"
    by (simp_all add: normalSegs_def)
  then show ?case
    using Suc.IH [of xs] by (simp add: st normalizeStep_def normalSeg_def)
qed

lemma normalizeStep_keeps_normal:
  "normalSegs st \<Longrightarrow> CHR ''/'' \<notin> set s \<Longrightarrow> normalSegs (normalizeStep False st s)"
  by (auto simp: normalizeStep_def normalSegs_def normalSeg_def split: list.splits)

lemma foldl_keeps_normal:
  "normalSegs st \<Longrightarrow> list_all (\<lambda>s. CHR ''/'' \<notin> set s) ss \<Longrightarrow>
   normalSegs (foldl (normalizeStep False) st ss)"
  by (induction ss arbitrary: st) (simp_all add: normalizeStep_keeps_normal)

lemma segments_all_no_slash: "list_all (\<lambda>s. CHR ''/'' \<notin> set s) (segments p)"
  by (simp add: list_all_iff segments_no_slash)

lemma normalizeSegs_normal: "normalSegs (normalizeSegs False p)"
proof -
  have "normalSegs (foldl (normalizeStep False) [] (segments p))"
    by (rule foldl_keeps_normal) (simp_all add: normalSegs_def segments_all_no_slash)
  then show ?thesis by (simp add: normalizeSegs_def normalSegs_def)
qed

lemma normalSegs_no_slash: "normalSegs ss \<Longrightarrow> list_all (\<lambda>s. CHR ''/'' \<notin> set s) ss"
  by (simp add: normalSegs_def normalSeg_def list_all_iff)

lemma segments_absPath:
  "normalSegs ss \<Longrightarrow> segments (absPath ss) = (if ss = [] then [[], []] else [] # ss)"
  by (simp add: absPath_def segments_joinSegs normalSegs_no_slash)

lemma absSegs_absPath: "normalSegs ss \<Longrightarrow> absSegs (absPath ss) = ss"
proof -
  assume n: "normalSegs ss"
  then have "filter (\<lambda>s. s \<noteq> []) ss = ss"
    by (simp add: normalSegs_def normalSeg_def list_all_iff filter_id_conv)
  with n show ?thesis
    by (simp add: absSegs_def segments_absPath)
qed

lemma resolveStr_one_absolute:
  "path_isAbsolute r \<Longrightarrow> resolveStr d [r] = absPath (normalizeSegs False (r @ ''/''))"
  by (simp add: resolveStr_def path_resolve_def path_isAbsolute_def normalizeString_def absPath_def)

lemma resolveStr_two_empty:
  "resolveStr d [r, []] = resolveStr d [r]"
  by (simp add: resolveStr_def path_resolve_def)

lemma resolveStr_two_relative:
  "path_isAbsolute r \<Longrightarrow> x \<noteq> [] \<Longrightarrow> hd x \<noteq> CHR ''/'' \<Longrightarrow>
   resolveStr d [r, x] = absPath (normalizeSegs False (r @ CHR ''/'' # x @ ''/''))"
  by (simp add: resolveStr_def path_resolve_def path_isAbsolute_def normalizeString_def absPath_def)

lemma resolveStr_two_absolute:
  "x \<noteq> [] \<Longrightarrow> hd x = CHR ''/'' \<Longrightarrow>
   resolveStr d [r, x] = absPath (normalizeSegs False (x @ ''/''))"
  by (simp add: resolveStr_def path_resolve_def path_isAbsolute_def normalizeString_def absPath_def)

lemma resolveStr_two_normal:
  assumes "path_isAbsolute r"
  shows "\<exists>ts. normalSegs ts \<and> resolveStr d [r, x] = absPath ts"
proof (cases "x = []")
  case True
  then show ?thesis
    using assms normalizeSegs_normal by (auto simp: resolveStr_two_empty resolveStr_one_absolute)
next
  case False
  then show ?thesis
    using assms normalizeSegs_normal
    by (cases "hd x = CHR ''/''") (auto simp: resolveStr_two_relative resolveStr_two_absolute)
qed

lemma normalizeSegs_append_slash:
  "normalizeSegs b (p @ ''/'') = normalizeSegs b p"
  using segments_append_slash [of p "[]"]
  by (simp add: normalizeSegs_def normalizeStep_empty)

lemma normalizeSegs_absPath:
  assumes "normalSegs ts"
  shows "normalizeSegs b (absPath ts) = ts"
proof (cases "ts = []")
  case True
  then show ?thesis
    by (simp add: normalizeSegs_def absPath_def normalizeStep_empty)
next
  case False
  with assms show ?thesis
    by (simp add: normalizeSegs_def segments_absPath normalizeStep_empty foldl_normal)
qed

lemma absPath_absolute: "path_isAbsolute (absPath ts)"
  by (simp add: absPath_def path_isAbsolute_def)

lemma resolveStr_absPath: "normalSegs ts \<Longrightarrow> resolveStr d [absPath ts] = absPath ts"
  by (simp add: resolveStr_one_absolute absPath_absolute normalizeSegs_append_slash
      normalizeSegs_absPath)

lemma dropCommon_split:
  "dropCommon xs ys = (fr, tr) \<Longrightarrow> \<exists>c. xs = c @ fr \<and> ys = c @ tr"
proof (induction xs ys rule: dropCommon.induct)
  case (1 x xs y ys)
  show ?case
  proof (cases "x = y")
    case True
    with 1 obtain c where "xs = c @ fr" "ys = c @ tr" by auto
    with True have "x # xs = (x # c) @ fr \<and> y # ys = (x # c) @ tr" by simp
    then show ?thesis by blast
  next
    case False
    with 1 show ?thesis by auto
  qed
qed auto

lemma dropCommon_both_empty:
  "dropCommon xs ys = ([], []) \<Longrightarrow> xs = ys"
  using dropCommon_split by fastforce

lemma joinSegs_empty_iff:
  "list_all (\<lambda>s. s \<noteq> []) ss \<Longrightarrow> (joinSegs ss = []) = (ss = [])"
  by (induction ss rule: joinSegs.induct) auto

lemma joinSegs_hd:
  "ss \<noteq> [] \<Longrightarrow> list_all (\<lambda>s. s \<noteq> [] \<and> CHR ''/'' \<notin> set s) ss \<Longrightarrow> hd (joinSegs ss) \<noteq> CHR ''/''"
proof (induction ss rule: joinSegs.induct)
  case 1
  then show ?case by simp
next
  case (2 s)
  then have "s \<noteq> []" and ns: "CHR ''/'' \<notin> set s" by simp_all
  then have "hd s \<in> set s" by simp
  with ns have "hd s \<noteq> CHR ''/''" by metis
  then show ?case by simp
next
  case (3 s t ss)
  then have "s \<noteq> []" and ns: "CHR ''/'' \<notin> set s" by simp_all
  then have "hd s \<in> set s" by simp
  with ns have "hd s \<noteq> CHR ''/''" by metis
  with \<open>s \<noteq> []\<close> show ?case by (simp add: hd_append)
qed

lemma normalSegs_append: "normalSegs (xs @ ys) = (normalSegs xs \<and> normalSegs ys)"
  by (simp add: normalSegs_def)

lemma normalSegs_rev: "normalSegs (rev xs) = normalSegs xs"
  by (simp add: normalSegs_def)

text \<open>
  Resolving, against an absolute root, the segments that lead from the root's own
  resolved form to a target gives the target.
\<close>

lemma resolve_of_relative:
  assumes abs: "path_isAbsolute r"
    and f: "resolveStr d [r] = absPath fs"
    and nf: "normalSegs fs"
    and nt: "normalSegs ts"
    and dc: "dropCommon fs ts = (fr, tr)"
    and ne: "fs \<noteq> ts"
  shows "resolveStr d [r, joinSegs (replicate (length fr) ''..'' @ tr)] = absPath ts"
proof -
  let ?rel = "replicate (length fr) ''..'' @ tr"
  obtain c where c: "fs = c @ fr" "ts = c @ tr"
    using dropCommon_split [OF dc] by blast
  have ntr: "normalSegs tr" and nc: "normalSegs c"
    using nt c by (simp_all add: normalSegs_append)
  have rel_ne: "?rel \<noteq> []"
    using ne c by auto
  have "list_all (\<lambda>s. s \<noteq> [] \<and> CHR ''/'' \<notin> set s) tr"
    using ntr by (simp add: normalSegs_def normalSeg_def list_all_iff)
  moreover have "list_all (\<lambda>s. s \<noteq> [] \<and> CHR ''/'' \<notin> set s) (replicate (length fr) ''..'')"
    by (simp add: list_all_iff)
  ultimately have rel_ok: "list_all (\<lambda>s. s \<noteq> [] \<and> CHR ''/'' \<notin> set s) ?rel"
    by simp
  have rel_ns: "list_all (\<lambda>s. CHR ''/'' \<notin> set s) ?rel"
    using rel_ok by (simp add: list_all_iff)
  have rel_nonempty: "joinSegs ?rel \<noteq> []"
    using rel_ne rel_ok joinSegs_empty_iff [of ?rel] by (simp add: list_all_iff)
  have rel_hd: "hd (joinSegs ?rel) \<noteq> CHR ''/''"
    using joinSegs_hd [OF rel_ne rel_ok] .
  have stack: "foldl (normalizeStep False) [] (segments r) = rev fs"
  proof -
    have "absPath (normalizeSegs False r) = absPath fs"
      using f abs by (simp add: resolveStr_one_absolute normalizeSegs_append_slash)
    then have "absSegs (absPath (normalizeSegs False r)) = absSegs (absPath fs)"
      by (rule arg_cong)
    then have "normalizeSegs False r = fs"
      by (simp add: absSegs_absPath normalizeSegs_normal nf)
    then have "rev (foldl (normalizeStep False) [] (segments r)) = fs"
      by (simp add: normalizeSegs_def)
    then have "rev (rev (foldl (normalizeStep False) [] (segments r))) = rev fs"
      by (rule arg_cong)
    then show ?thesis by simp
  qed
  have segs: "segments (r @ CHR ''/'' # joinSegs ?rel @ ''/'') = segments r @ ?rel @ [[]]"
    using segments_append_slash [of r "joinSegs ?rel @ ''/''"]
          segments_append_slash [of "joinSegs ?rel" "[]"]
          segments_joinSegs [OF rel_ne rel_ns]
    by simp
  have up: "foldl (normalizeStep False) (rev fs) (replicate (length fr) ''..'') = rev c"
  proof -
    have "foldl (normalizeStep False) (rev fs) (replicate (length fr) ''..'') = drop (length fr) (rev fs)"
    proof (rule foldl_dotdot)
      show "normalSegs (rev fs)" using nf by (simp add: normalSegs_rev)
      show "length fr \<le> length (rev fs)" by (simp add: c(1))
    qed
    then show ?thesis by (simp add: c(1))
  qed
  have "foldl (normalizeStep False) [] (segments r @ ?rel @ [[]]) = rev tr @ rev c"
    by (simp add: stack up foldl_normal [OF ntr] normalizeStep_empty)
  then have "normalizeSegs False (r @ CHR ''/'' # joinSegs ?rel @ ''/'') = ts"
    by (simp add: normalizeSegs_def segs c(2))
  then show ?thesis
    using resolveStr_two_relative [OF abs rel_nonempty rel_hd, of d] by simp
qed

theorem resolve_relative_roundtrip:
  assumes abs: "path_isAbsolute r" and nt: "normalSegs ts"
  shows "resolveStr d [r, path_relative d r (absPath ts)] = absPath ts"
proof -
  obtain fs where nf: "normalSegs fs" and f: "resolveStr d [r] = absPath fs"
    using abs normalizeSegs_normal by (auto simp: resolveStr_one_absolute)
  have t: "resolveStr d [absPath ts] = absPath ts"
    using nt by (rule resolveStr_absPath)
  show ?thesis
  proof (cases "r = absPath ts \<or> fs = ts")
    case True
    then have "path_relative d r (absPath ts) = []"
      using f t by (auto simp: path_relative_def Let_def)
    moreover have "resolveStr d [r] = absPath ts"
      using True f t by auto
    ultimately show ?thesis by (simp add: resolveStr_two_empty)
  next
    case False
    then have ne: "fs \<noteq> ts" and "r \<noteq> absPath ts" by auto
    obtain fr tr where dc: "dropCommon fs ts = (fr, tr)"
      by (cases "dropCommon fs ts") auto
    have "absPath fs \<noteq> absPath ts"
      using ne absSegs_absPath [OF nf] absSegs_absPath [OF nt] by auto
    then have "path_relative d r (absPath ts) = joinSegs (replicate (length fr) ''..'' @ tr)"
      using \<open>r \<noteq> absPath ts\<close> f t dc nf nt
      by (simp add: path_relative_def Let_def absSegs_absPath)
    then show ?thesis
      using resolve_of_relative [OF abs f nf nt dc ne] by simp
  qed
qed

section \<open>JSON: parsing what was written\<close>

lemma hexVal_hexDigit: "k < 16 \<Longrightarrow> hexVal (hexDigit k) = Some k"
proof -
  assume "k < 16"
  then have "k \<in> set [0..<16]" by simp
  moreover have "\<forall>k\<in>set [0..<16]. hexVal (hexDigit k) = Some k" by code_simp
  ultimately show ?thesis by blast
qed

lemma hexVal_zero: "hexVal (CHR ''0'') = Some 0"
  by (simp add: hexVal_def)

lemma hex4_low:
  "n < 256 \<Longrightarrow> hex4 (CHR ''0'') (CHR ''0'') (hexDigit (n div 16)) (hexDigit (n mod 16)) = Some n"
  by (simp add: hex4_def hexVal_zero hexVal_hexDigit less_mult_imp_div_less)

lemma lex_quoteChar:
  "lexJSON (Some acc) (quoteChar c @ rest) = lexJSON (Some (c # acc)) rest"
proof -
  consider (quote) "c = CHR 0x22" | (bs) "c = CHR 0x5C" | (b) "c = CHR 0x08" | (f) "c = CHR 0x0C"
    | (n) "c = CHR 0x0A" | (r) "c = CHR 0x0D" | (t) "c = CHR 0x09"
    | (ctl) "c \<noteq> CHR 0x22" "c \<noteq> CHR 0x5C" "c \<noteq> CHR 0x08" "c \<noteq> CHR 0x0C" "c \<noteq> CHR 0x0A"
        "c \<noteq> CHR 0x0D" "c \<noteq> CHR 0x09" "(of_char c :: nat) < 32"
    | (plain) "c \<noteq> CHR 0x22" "c \<noteq> CHR 0x5C" "\<not> (of_char c :: nat) < 32"
    by (cases "(of_char c :: nat) < 32") auto
  then show ?thesis
  proof cases
    case ctl
    let ?n = "of_char c :: nat"
    have "hex4 (CHR ''0'') (CHR ''0'') (hexDigit (?n div 16)) (hexDigit (?n mod 16)) = Some ?n"
      using ctl by (intro hex4_low) simp
    with ctl show ?thesis
      by (simp add: quoteChar_def)
  next
    case plain
    then have "quoteChar c = [c]"
      by (auto simp: quoteChar_def)
    with plain show ?thesis by simp
  qed (simp_all add: quoteChar_def unescape_def)
qed

lemma lex_string_body:
  "lexJSON (Some acc) (concat (map quoteChar s) @ CHR 0x22 # rest)
   = consResult (Str (rev acc @ s)) (lexJSON None rest)"
proof (induction s arbitrary: acc)
  case Nil
  show ?case by simp
next
  case (Cons c s)
  have "lexJSON (Some acc) (concat (map quoteChar (c # s)) @ CHR 0x22 # rest)
        = lexJSON (Some acc) (quoteChar c @ (concat (map quoteChar s) @ CHR 0x22 # rest))"
    by simp
  also have "\<dots> = lexJSON (Some (c # acc)) (concat (map quoteChar s) @ CHR 0x22 # rest)"
    by (rule lex_quoteChar)
  also have "\<dots> = consResult (Str (rev (c # acc) @ s)) (lexJSON None rest)"
    by (rule Cons.IH)
  finally show ?case by simp
qed

lemma lex_string:
  "lexJSON None (quoteJSONString s @ rest) = consResult (Str s) (lexJSON None rest)"
  using lex_string_body [of "[]" s rest]
  by (simp add: quoteJSONString_def isWhitespace_def)

lemma lex_member:
  "lexJSON None (renderMember (k, v) @ rest)
   = consResult (Str k) (consResult Colon (consResult (Str v) (lexJSON None rest)))"
proof -
  have "lexJSON None (renderMember (k, v) @ rest)
        = lexJSON None (quoteJSONString k @ (CHR '':'' # quoteJSONString v @ rest))"
    by (simp add: renderMember_def)
  also have "\<dots> = consResult (Str k) (lexJSON None (CHR '':'' # quoteJSONString v @ rest))"
    by (rule lex_string)
  also have "lexJSON None (CHR '':'' # quoteJSONString v @ rest)
             = consResult Colon (lexJSON None (quoteJSONString v @ rest))"
    by (simp add: isWhitespace_def)
  also have "lexJSON None (quoteJSONString v @ rest) = consResult (Str v) (lexJSON None rest)"
    by (rule lex_string)
  finally show ?thesis .
qed

lemma lex_members:
  "lexJSON None rest = Inr toks \<Longrightarrow>
   lexJSON None (joinMembers (map renderMember ms) @ rest) = Inr (memberTokens ms @ toks)"
proof (induction ms rule: memberTokens.induct)
  case 1
  then show ?case by simp
next
  case (2 k v)
  then show ?case by (simp add: lex_member consResult_def)
next
  case (3 k v m ms)
  have "lexJSON None (joinMembers (map renderMember ((k, v) # m # ms)) @ rest)
        = lexJSON None (renderMember (k, v) @ (CHR '','' # joinMembers (map renderMember (m # ms)) @ rest))"
    by simp
  also have "\<dots> = consResult (Str k) (consResult Colon (consResult (Str v)
                     (lexJSON None (CHR '','' # joinMembers (map renderMember (m # ms)) @ rest))))"
    by (rule lex_member)
  also have "lexJSON None (CHR '','' # joinMembers (map renderMember (m # ms)) @ rest)
             = consResult Comma (lexJSON None (joinMembers (map renderMember (m # ms)) @ rest))"
    by (simp add: isWhitespace_def)
  also have "lexJSON None (joinMembers (map renderMember (m # ms)) @ rest) = Inr (memberTokens (m # ms) @ toks)"
    using 3 by simp
  finally show ?case by (simp add: consResult_def)
qed

lemma parse_memberTokens:
  "ms \<noteq> [] \<Longrightarrow> parseMembers (memberTokens ms @ [RBrace]) = Inr ms"
proof (induction ms rule: memberTokens.induct)
  case 1
  then show ?case by simp
next
  case (2 k v)
  show ?case by (simp add: parseMembers.simps)
next
  case (3 k v m ms)
  then have "parseMembers (memberTokens (m # ms) @ [RBrace]) = Inr (m # ms)" by simp
  then show ?case
    by (subst parseMembers.simps) (simp add: consResult_def)
qed

lemma memberTokens_start:
  "ms \<noteq> [] \<Longrightarrow> \<exists>k ts. memberTokens ms = Str k # ts"
  by (induction ms rule: memberTokens.induct) auto

theorem JSON_roundtrip: "JSON_parse (JSON_stringify obj) = Inr (definedMembers obj)"
proof -
  let ?ms = "definedMembers obj"
  have shape: "JSON_stringify obj = CHR ''{'' # joinMembers (map renderMember ?ms) @ ''}''"
    by (simp add: JSON_stringify_def)
  have "lexJSON None ''}'' = Inr [RBrace]"
    by (simp add: isWhitespace_def consResult_def)
  then have "lexJSON None (joinMembers (map renderMember ?ms) @ ''}'') = Inr (memberTokens ?ms @ [RBrace])"
    by (rule lex_members)
  then have lex: "lexJSON None (JSON_stringify obj) = Inr (LBrace # memberTokens ?ms @ [RBrace])"
    by (simp add: shape isWhitespace_def consResult_def)
  show ?thesis
  proof (cases "?ms = []")
    case True
    with lex show ?thesis by (simp add: JSON_parse_def parseObject_def)
  next
    case False
    then obtain k ts where "memberTokens ?ms = Str k # ts"
      using memberTokens_start by blast
    then have "parseObject (LBrace # memberTokens ?ms @ [RBrace]) = parseMembers (memberTokens ?ms @ [RBrace])"
      by (simp add: parseObject_def)
    with False lex show ?thesis
      by (simp add: JSON_parse_def parse_memberTokens)
  qed
qed

section \<open>Characters of the computed texts\<close>

lemma segments_subset: "s \<in> set (segments p) \<Longrightarrow> set s \<subseteq> set p"
proof (induction p arbitrary: s)
  case Nil
  then show ?case by simp
next
  case (Cons c p)
  obtain t ts where seg: "segments p = t # ts"
    using segments_nonempty [of p] by (cases "segments p") auto
  have t: "set t \<subseteq> set p" and ts: "\<And>u. u \<in> set ts \<Longrightarrow> set u \<subseteq> set p"
    using Cons.IH seg by simp_all
  show ?case
  proof (cases "c = CHR ''/''")
    case True
    with Cons.prems seg have "s = [] \<or> s = t \<or> s \<in> set ts" by simp
    with t ts show ?thesis by auto
  next
    case False
    with Cons.prems seg have "s = c # t \<or> s \<in> set ts" by simp
    with t ts show ?thesis by auto
  qed
qed

lemma joinSegs_chars:
  "x \<in> set (joinSegs ss) \<Longrightarrow> x = CHR ''/'' \<or> (\<exists>s\<in>set ss. x \<in> set s)"
  by (induction ss rule: joinSegs.induct) auto

lemma joinSegs_contains: "s \<in> set ss \<Longrightarrow> set s \<subseteq> set (joinSegs ss)"
  by (induction ss rule: joinSegs.induct) auto

lemma normalizeStep_elems:
  "t \<in> set (normalizeStep b st s) \<Longrightarrow> t \<in> set st \<or> t = s \<or> t = ''..''"
  by (auto simp: normalizeStep_def split: if_splits list.splits)

lemma foldl_normalizeStep_elems:
  "t \<in> set (foldl (normalizeStep b) st ss) \<Longrightarrow> t \<in> set st \<or> t \<in> set ss \<or> t = ''..''"
proof (induction ss arbitrary: st)
  case Nil
  then show ?case by simp
next
  case (Cons s ss)
  then have "t \<in> set (normalizeStep b st s) \<or> t \<in> set ss \<or> t = ''..''" by simp
  then show ?case using normalizeStep_elems [of t b st s] by auto
qed

lemma normalizeSegs_elems:
  "t \<in> set (normalizeSegs b p) \<Longrightarrow> t \<in> set (segments p) \<or> t = ''..''"
  using foldl_normalizeStep_elems [of t b "[]" "segments p"] by (simp add: normalizeSegs_def)

lemma normalizeSegs_chars:
  assumes "t \<in> set (normalizeSegs b p)" and "x \<in> set t"
  shows "x \<in> set p \<or> x = CHR ''.''"
proof -
  from assms(1) have "t \<in> set (segments p) \<or> t = ''..''" by (rule normalizeSegs_elems)
  then show ?thesis
  proof
    assume "t \<in> set (segments p)"
    then have "set t \<subseteq> set p" by (rule segments_subset)
    with assms(2) show ?thesis by auto
  next
    assume "t = ''..''"
    with assms(2) show ?thesis by simp
  qed
qed

lemma absPath_normalizeSegs_chars:
  "x \<in> set (absPath (normalizeSegs b p)) \<Longrightarrow> x \<in> set p \<or> x = CHR ''.'' \<or> x = CHR ''/''"
  using joinSegs_chars [of x "normalizeSegs b p"] normalizeSegs_chars [of _ b p x]
  by (auto simp: absPath_def)

lemma normalizeString_chars:
  "x \<in> set (normalizeString p b) \<Longrightarrow> x \<in> set p \<or> x = CHR ''.'' \<or> x = CHR ''/''"
  using joinSegs_chars [of x "normalizeSegs b p"] normalizeSegs_chars [of _ b p x]
  by (auto simp: normalizeString_def)

lemma resolveStr_two_chars:
  assumes "path_isAbsolute r" and "x \<in> set (resolveStr d [r, y])"
  shows "x \<in> set r \<or> x \<in> set y \<or> x = CHR ''.'' \<or> x = CHR ''/''"
proof (cases "y = []")
  case True
  with assms show ?thesis
    using absPath_normalizeSegs_chars [of x False "r @ ''/''"]
    by (auto simp: resolveStr_two_empty resolveStr_one_absolute)
next
  case False
  show ?thesis
  proof (cases "hd y = CHR ''/''")
    case True
    with assms False show ?thesis
      using absPath_normalizeSegs_chars [of x False "y @ ''/''"]
      by (auto simp: resolveStr_two_absolute)
  next
    case False
    with assms \<open>y \<noteq> []\<close> show ?thesis
      using absPath_normalizeSegs_chars [of x False "r @ CHR ''/'' # y @ ''/''"]
      by (auto simp: resolveStr_two_relative)
  qed
qed

lemma path_relative_form:
  assumes abs: "path_isAbsolute r" and nt: "normalSegs ts"
  shows "\<exists>n c tr. ts = c @ tr \<and> path_relative d r (absPath ts) = joinSegs (replicate n ''..'' @ tr)"
proof -
  obtain fs where nf: "normalSegs fs" and f: "resolveStr d [r] = absPath fs"
    using abs normalizeSegs_normal by (auto simp: resolveStr_one_absolute)
  have t: "resolveStr d [absPath ts] = absPath ts"
    using nt by (rule resolveStr_absPath)
  obtain fr tr where dc: "dropCommon fs ts = (fr, tr)"
    by (cases "dropCommon fs ts") auto
  then obtain c where c: "ts = c @ tr"
    using dropCommon_split by blast
  have "path_relative d r (absPath ts) = [] \<or>
        path_relative d r (absPath ts) = joinSegs (replicate (length fr) ''..'' @ tr)"
    using f t dc nf nt by (simp add: path_relative_def Let_def absSegs_absPath)
  then show ?thesis
  proof
    assume "path_relative d r (absPath ts) = []"
    then have "ts = ts @ [] \<and> path_relative d r (absPath ts) = joinSegs (replicate 0 ''..'' @ [])"
      by simp
    then show ?thesis by blast
  next
    assume "path_relative d r (absPath ts) = joinSegs (replicate (length fr) ''..'' @ tr)"
    with c show ?thesis by blast
  qed
qed

lemma path_relative_chars:
  assumes abs: "path_isAbsolute r" and nt: "normalSegs ts"
    and x: "x \<in> set (path_relative d r (absPath ts))"
  shows "x \<in> set (absPath ts) \<or> x = CHR ''.'' \<or> x = CHR ''/''"
proof -
  obtain n c tr where c: "ts = c @ tr"
    and rel: "path_relative d r (absPath ts) = joinSegs (replicate n ''..'' @ tr)"
    using path_relative_form [OF abs nt] by blast
  from x rel have "x \<in> set (joinSegs (replicate n ''..'' @ tr))" by simp
  then have "x = CHR ''/'' \<or> (\<exists>s\<in>set (replicate n ''..'' @ tr). x \<in> set s)"
    by (rule joinSegs_chars)
  then show ?thesis
  proof
    assume "x = CHR ''/''"
    then show ?thesis by simp
  next
    assume "\<exists>s\<in>set (replicate n ''..'' @ tr). x \<in> set s"
    then obtain s where "s \<in> set (replicate n ''..'' @ tr)" and xs: "x \<in> set s"
      by blast
    then have s: "s \<in> set (replicate n ''..'') \<or> s \<in> set tr"
      by (simp only: set_append Un_iff)
    from s show ?thesis
    proof
      assume "s \<in> set (replicate n ''..'')"
      then have "s = ''..''" by auto
      with xs show ?thesis by simp
    next
      assume "s \<in> set tr"
      then have "s \<in> set ts" using c by simp
      then have "set s \<subseteq> set (joinSegs ts)" by (rule joinSegs_contains)
      with xs show ?thesis by (auto simp: absPath_def)
    qed
  qed
qed

lemma lastComponent_subset: "set (lastComponent s) \<subseteq> set s"
  using set_takeWhileD [of _ "\<lambda>c. c \<noteq> CHR ''/''" "rev s"] by (auto simp: lastComponent_def)

lemma stripSlashes_subset: "set (stripSlashes s) \<subseteq> set s"
  using set_dropWhileD [of _ "\<lambda>c. c = CHR ''/''" "rev s"] by (auto simp: stripSlashes_def)

lemma parse_component_subset:
  "set (lastComponent (stripSlashes (drop n p))) \<subseteq> set p"
  using lastComponent_subset [of "stripSlashes (drop n p)"] stripSlashes_subset [of "drop n p"]
        set_drop_subset [of n p]
  by blast

lemma path_parse_name_chars: "x \<in> set (name (path_parse p)) \<Longrightarrow> x \<in> set p"
  using parse_component_subset [of 0 p] parse_component_subset [of 1 p]
  by (auto simp: path_parse_def Let_def split: if_splits dest!: in_set_takeD)

lemma path_parse_ext_chars: "x \<in> set (ext (path_parse p)) \<Longrightarrow> x \<in> set p"
  using parse_component_subset [of 0 p] parse_component_subset [of 1 p]
  by (auto simp: path_parse_def Let_def split: if_splits dest!: in_set_dropD)

lemma path_parse_dir_chars: "x \<in> set (dir (path_parse p)) \<Longrightarrow> x \<in> set p \<or> x = CHR ''/''"
  by (auto simp: path_parse_def Let_def split: if_splits dest!: in_set_takeD)

lemma path_normalize_chars:
  "x \<in> set (path_normalize p) \<Longrightarrow> x \<in> set p \<or> x = CHR ''.'' \<or> x = CHR ''/''"
  using normalizeString_chars [of x p]
  by (auto simp: path_normalize_def Let_def split: if_splits)

lemma path_join_chars:
  assumes "x \<in> set (path_join args)"
  shows "(\<exists>a\<in>set args. x \<in> set a) \<or> x = CHR ''.'' \<or> x = CHR ''/''"
proof (cases "filter (\<lambda>a. a \<noteq> []) args = []")
  case True
  with assms show ?thesis by (simp add: path_join_def)
next
  case False
  with assms have "x \<in> set (path_normalize (joinSegs (filter (\<lambda>a. a \<noteq> []) args)))"
    by (simp add: path_join_def Let_def)
  then have "x \<in> set (joinSegs (filter (\<lambda>a. a \<noteq> []) args)) \<or> x = CHR ''.'' \<or> x = CHR ''/''"
    by (rule path_normalize_chars)
  then show ?thesis
    using joinSegs_chars [of x "filter (\<lambda>a. a \<noteq> []) args"] by auto
qed

text \<open>Every segment that normalization keeps is non-empty and has no slash.\<close>

lemma normalizeStep_kept:
  "list_all (\<lambda>s. s \<noteq> [] \<and> CHR ''/'' \<notin> set s) st \<Longrightarrow> CHR ''/'' \<notin> set s \<Longrightarrow>
   list_all (\<lambda>s. s \<noteq> [] \<and> CHR ''/'' \<notin> set s) (normalizeStep b st s)"
  by (auto simp: normalizeStep_def split: list.splits)

lemma foldl_kept:
  "list_all (\<lambda>s. s \<noteq> [] \<and> CHR ''/'' \<notin> set s) st \<Longrightarrow> list_all (\<lambda>s. CHR ''/'' \<notin> set s) ss \<Longrightarrow>
   list_all (\<lambda>s. s \<noteq> [] \<and> CHR ''/'' \<notin> set s) (foldl (normalizeStep b) st ss)"
  by (induction ss arbitrary: st) (simp_all add: normalizeStep_kept)

lemma normalizeSegs_kept:
  "list_all (\<lambda>s. s \<noteq> [] \<and> CHR ''/'' \<notin> set s) (normalizeSegs b p)"
proof -
  have "list_all (\<lambda>s. s \<noteq> [] \<and> CHR ''/'' \<notin> set s) (foldl (normalizeStep b) [] (segments p))"
    by (rule foldl_kept) (simp_all add: segments_all_no_slash)
  then show ?thesis by (simp add: normalizeSegs_def)
qed

lemma normalizeString_hd:
  "normalizeString p b \<noteq> [] \<Longrightarrow> hd (normalizeString p b) \<noteq> CHR ''/''"
proof -
  assume ne: "normalizeString p b \<noteq> []"
  then have "normalizeSegs b p \<noteq> []" by (auto simp: normalizeString_def)
  then show ?thesis
    using joinSegs_hd [OF _ normalizeSegs_kept, of b p] by (simp add: normalizeString_def)
qed

lemma path_normalize_nonempty: "path_normalize p \<noteq> []"
  by (simp add: path_normalize_def Let_def)

lemma path_normalize_no_double_slash: "take 2 (path_normalize p @ r) = ''//'' \<Longrightarrow> hd r = CHR ''/'' \<and> length (path_normalize p) = 1"
proof -
  assume a: "take 2 (path_normalize p @ r) = ''//''"
  show ?thesis
  proof (cases "p = []")
    case True
    with a show ?thesis by (simp add: path_normalize_def)
  next
    case False
    let ?abs = "hd p = CHR ''/''"
    let ?n = "normalizeString p (\<not> ?abs)"
    show ?thesis
    proof (cases "?n = []")
      case True
      with a False show ?thesis
        by (cases r) (auto simp: path_normalize_def Let_def split: if_splits)
    next
      case nn: False
      then have h: "hd ?n \<noteq> CHR ''/''" by (rule normalizeString_hd)
      from nn obtain c cs where n: "?n = c # cs" by (cases ?n) auto
      with h have "c \<noteq> CHR ''/''" by simp
      with a False n show ?thesis
        by (auto simp: path_normalize_def Let_def split: if_splits)
    qed
  qed
qed

lemma path_join_no_double_slash:
  "take 2 (path_join args @ CHR '':'' # r) \<noteq> ''//''"
proof (cases "filter (\<lambda>a. a \<noteq> []) args = []")
  case True
  then show ?thesis by (simp add: path_join_def)
next
  case False
  then show ?thesis
    using path_normalize_no_double_slash [of "joinSegs (filter (\<lambda>a. a \<noteq> []) args)" "CHR '':'' # r"]
    by (auto simp: path_join_def Let_def)
qed

lemma decodeURIComponent_plain: "CHR ''%'' \<notin> set s \<Longrightarrow> decodeURIComponent s = Inr s"
  by (induction s) (auto simp: consResult_def)

lemma take2_append:
  "take 2 (p @ CHR ''?'' # q) = ''//'' \<Longrightarrow> take 2 p = ''//''"
  by (cases p; cases "tl p") auto

lemma Uri_parse_parts:
  assumes sch: "sch \<noteq> []" "list_all schemeChar sch"
    and p: "list_all pathChar p" "take 2 p \<noteq> ''//''" "CHR ''%'' \<notin> set p"
    and q: "list_all queryChar q" "CHR ''%'' \<notin> set q"
  shows "Uri_parse (sch @ CHR '':'' # p @ CHR ''?'' # q)
         = Inr \<lparr>scheme = sch, authority = [], path = p, query = q, fragment = []\<rparr>"
proof -
  let ?v = "sch @ CHR '':'' # p @ CHR ''?'' # q"
  have pre: "takeWhile schemeChar ?v = sch" and post: "dropWhile schemeChar ?v = CHR '':'' # p @ CHR ''?'' # q"
    using sch(2) by (simp_all add: list_all_iff takeWhile_append2 dropWhile_append2 schemeChar_def)
  have noauth: "take 2 (p @ CHR ''?'' # q) \<noteq> ''//''"
    using p(2) take2_append by blast
  have pth: "takeWhile pathChar (p @ CHR ''?'' # q) = p" and rest: "dropWhile pathChar (p @ CHR ''?'' # q) = CHR ''?'' # q"
    using p(1) by (simp_all add: list_all_iff takeWhile_append2 dropWhile_append2 pathChar_def)
  have qry: "takeWhile queryChar q = q" and qrest: "dropWhile queryChar q = []"
    using q(1) by (simp_all add: list_all_iff)
  show ?thesis
    using sch(1) noauth
    by (simp add: Uri_parse_def Let_def pre post pth rest qry qrest
        decodeURIComponent_plain p(3) q(2))
qed

lemma hexDigit_syntax: "k < 16 \<Longrightarrow> hexDigit k \<in> jsonSyntax"
proof -
  assume "k < 16"
  then have "''0123456789abcdef'' ! k \<in> set ''0123456789abcdef''"
    by (intro nth_mem) simp
  then show ?thesis by (auto simp: hexDigit_def jsonSyntax_def)
qed

lemma quoteChar_chars: "x \<in> set (quoteChar c) \<Longrightarrow> x = c \<or> x \<in> jsonSyntax"
proof -
  assume x: "x \<in> set (quoteChar c)"
  show ?thesis
  proof (cases "(of_char c :: nat) < 32")
    case True
    then have "hexDigit ((of_char c :: nat) div 16) \<in> jsonSyntax" "hexDigit ((of_char c :: nat) mod 16) \<in> jsonSyntax"
      by (simp_all add: hexDigit_syntax less_mult_imp_div_less)
    moreover have "CHR 0x5C \<in> jsonSyntax" "CHR 0x22 \<in> jsonSyntax" "CHR ''b'' \<in> jsonSyntax" "CHR ''f'' \<in> jsonSyntax"
      "CHR ''n'' \<in> jsonSyntax" "CHR ''r'' \<in> jsonSyntax" "CHR ''t'' \<in> jsonSyntax" "CHR ''u'' \<in> jsonSyntax"
      "CHR ''0'' \<in> jsonSyntax"
      by (simp_all add: jsonSyntax_def)
    ultimately show ?thesis
      using x by (auto simp: quoteChar_def split: if_splits)
  next
    case False
    moreover have "CHR 0x5C \<in> jsonSyntax" "CHR 0x22 \<in> jsonSyntax"
      by (simp_all add: jsonSyntax_def)
    ultimately show ?thesis
      using x by (auto simp: quoteChar_def split: if_splits)
  qed
qed

lemma quoteJSONString_chars:
  "x \<in> set (quoteJSONString s) \<Longrightarrow> x \<in> set s \<or> x \<in> jsonSyntax"
proof -
  assume "x \<in> set (quoteJSONString s)"
  then have "x = CHR 0x22 \<or> (\<exists>c\<in>set s. x \<in> set (quoteChar c))"
    by (auto simp: quoteJSONString_def)
  moreover have "CHR 0x22 \<in> jsonSyntax" by (simp add: jsonSyntax_def)
  ultimately show ?thesis using quoteChar_chars by blast
qed

lemma renderMember_chars:
  "x \<in> set (renderMember (k, v)) \<Longrightarrow> x \<in> set k \<or> x \<in> set v \<or> x \<in> jsonSyntax"
proof -
  assume "x \<in> set (renderMember (k, v))"
  then have "x \<in> set (quoteJSONString k) \<or> x = CHR '':'' \<or> x \<in> set (quoteJSONString v)"
    by (auto simp: renderMember_def)
  moreover have "CHR '':'' \<in> jsonSyntax" by (simp add: jsonSyntax_def)
  ultimately show ?thesis using quoteJSONString_chars by blast
qed

lemma joinMembers_chars:
  "x \<in> set (joinMembers ms) \<Longrightarrow> x = CHR '','' \<or> (\<exists>m\<in>set ms. x \<in> set m)"
  by (induction ms rule: joinMembers.induct) auto

lemma JSON_stringify_chars:
  assumes "x \<in> set (JSON_stringify obj)"
  shows "x \<in> jsonSyntax \<or> (\<exists>m\<in>set (definedMembers obj). x \<in> set (fst m) \<or> x \<in> set (snd m))"
proof -
  have br: "CHR ''{'' \<in> jsonSyntax" "CHR ''}'' \<in> jsonSyntax" "CHR '','' \<in> jsonSyntax"
    by (simp_all add: jsonSyntax_def)
  from assms have "x = CHR ''{'' \<or> x = CHR ''}'' \<or> x \<in> set (joinMembers (map renderMember (definedMembers obj)))"
    by (auto simp: JSON_stringify_def)
  then have "x \<in> jsonSyntax \<or> (\<exists>t\<in>set (map renderMember (definedMembers obj)). x \<in> set t)"
    using br joinMembers_chars [of x "map renderMember (definedMembers obj)"] by blast
  then show ?thesis
  proof
    assume "x \<in> jsonSyntax"
    then show ?thesis by simp
  next
    assume "\<exists>t\<in>set (map renderMember (definedMembers obj)). x \<in> set t"
    then obtain m where m: "m \<in> set (definedMembers obj)" and "x \<in> set (renderMember m)"
      by auto
    then have "x \<in> set (renderMember (fst m, snd m))" by simp
    then have "x \<in> set (fst m) \<or> x \<in> set (snd m) \<or> x \<in> jsonSyntax"
      by (rule renderMember_chars)
    with m show ?thesis by blast
  qed
qed

lemma definedMembers_three:
  "definedMembers [(k1, Some v1), (k2, Some v2), (k3, Some v3)] = [(k1, v1), (k2, v2), (k3, v3)]"
  by (simp add: definedMembers_def)

lemma revision_query_chars:
  assumes "x \<in> set (JSON_stringify [(k1, Some f), (k2, Some r), (k3, Some s)])"
  shows "x \<in> set f \<or> x \<in> set r \<or> x \<in> set s \<or> x \<in> jsonSyntax
         \<or> x \<in> set k1 \<or> x \<in> set k2 \<or> x \<in> set k3"
  using JSON_stringify_chars [OF assms] by (auto simp: definedMembers_three)

lemma special_not_syntax:
  "x = CHR ''#'' \<or> x = CHR ''%'' \<Longrightarrow>
   x \<notin> jsonSyntax \<and> x \<notin> set ''fileName'' \<and> x \<notin> set ''repoPath'' \<and> x \<notin> set ''sha''"
  by (auto simp: jsonSyntax_def)

lemma revision_path_chars:
  assumes "x \<in> set (path_join [dir (path_parse t), name (path_parse t)] @ CHR '':'' # short @ ext (path_parse t))"
  shows "x \<in> set t \<or> x \<in> set short \<or> x = CHR ''.'' \<or> x = CHR ''/'' \<or> x = CHR '':''"
proof -
  from assms have "x \<in> set (path_join [dir (path_parse t), name (path_parse t)])
      \<or> x = CHR '':'' \<or> x \<in> set short \<or> x \<in> set (ext (path_parse t))"
    by auto
  then show ?thesis
    using path_join_chars [of x "[dir (path_parse t), name (path_parse t)]"]
      path_parse_dir_chars [of x t] path_parse_name_chars [of x t] path_parse_ext_chars [of x t]
    by auto
qed

section \<open>Properties of GitUri\<close>

lemma revisionText_parse:
  assumes sch: "GitLensGit env \<noteq> []" "list_all schemeChar (GitLensGit env)"
    and t: "uriSafe t" and short: "uriSafe short"
    and f: "uriSafe (normalizePath env (path_relative (cwd env) r t))"
    and r: "uriSafe r" and s: "uriSafe s"
  shows "Uri_parse (revisionText env r t (Some s) (Some short))
         = Inr \<lparr>scheme = GitLensGit env, authority = [],
                path = path_join [dir (path_parse t), name (path_parse t)] @ CHR '':'' # short @ ext (path_parse t),
                query = JSON_stringify (revisionData env r t (Some s)), fragment = []\<rparr>"
proof -
  let ?p = "path_join [dir (path_parse t), name (path_parse t)] @ CHR '':'' # short @ ext (path_parse t)"
  let ?q = "JSON_stringify (revisionData env r t (Some s))"
  have pchars: "x \<notin> set ?p" if "x = CHR ''?'' \<or> x = CHR ''#'' \<or> x = CHR ''%''" for x
  proof
    assume "x \<in> set ?p"
    then have "x \<in> set t \<or> x \<in> set short \<or> x = CHR ''.'' \<or> x = CHR ''/'' \<or> x = CHR '':''"
      by (rule revision_path_chars)
    with that t short show False by (auto simp: uriSafe_def)
  qed
  have qchars: "x \<notin> set ?q" if "x = CHR ''#'' \<or> x = CHR ''%''" for x
  proof
    assume "x \<in> set ?q"
    then have "x \<in> set (normalizePath env (path_relative (cwd env) r t)) \<or> x \<in> set r \<or> x \<in> set s
        \<or> x \<in> jsonSyntax \<or> x \<in> set ''fileName'' \<or> x \<in> set ''repoPath'' \<or> x \<in> set ''sha''"
      unfolding revisionData_def by (rule revision_query_chars)
    with that f r s special_not_syntax [OF that] show False by (auto simp: uriSafe_def)
  qed
  have p1: "list_all pathChar ?p"
    unfolding list_all_iff pathChar_def using pchars by blast
  have p2: "take 2 ?p \<noteq> ''//''"
    by (rule path_join_no_double_slash)
  have p3: "CHR ''%'' \<notin> set ?p" using pchars by blast
  have q1: "list_all queryChar ?q"
    unfolding list_all_iff queryChar_def using qchars by blast
  have q2: "CHR ''%'' \<notin> set ?q" using qchars by blast
  have "revisionText env r t (Some s) (Some short) = GitLensGit env @ CHR '':'' # ?p @ CHR ''?'' # ?q"
    by (simp add: revisionText_def Let_def)
  then show ?thesis
    using Uri_parse_parts [OF sch p1 p2 p3 q1 q2] by simp
qed

lemma getProp_revision:
  "getProp [(''fileName'', f), (''repoPath'', r), (''sha'', s)] ''fileName'' = Some f"
  "getProp [(''fileName'', f), (''repoPath'', r), (''sha'', s)] ''repoPath'' = Some r"
  "getProp [(''fileName'', f), (''repoPath'', r), (''sha'', s)] ''sha'' = Some s"
  by (simp_all add: getProp_def)

lemma decode_revision:
  assumes "scheme u = GitLensGit env"
    and "query u = JSON_stringify [(''fileName'', Some f), (''repoPath'', Some r), (''sha'', Some s)]"
  shows "GitUri_new env (Some u) arg
         = Inr \<lparr>scheme = scheme u, authority = authority u, path = resolveStr (cwd env) [r, f],
                query = query u, fragment = fragment u,
                repoPath = Some r, sha = keptSha env (Some s)\<rparr>"
  using assms
  by (simp add: GitUri_new_def JSON_roundtrip definedMembers_three getProp_revision path_resolve_two)

lemma uriSafe_resolve:
  assumes "path_isAbsolute r" "uriSafe r" "uriSafe y"
  shows "uriSafe (resolveStr d [r, y])"
  using assms resolveStr_two_chars [OF assms(1), of _ d y]
  by (auto simp: uriSafe_def)

lemma uriSafe_relative:
  assumes "path_isAbsolute r" "normalSegs ts" "uriSafe (absPath ts)"
  shows "uriSafe (path_relative d r (absPath ts))"
  using assms path_relative_chars [OF assms(1,2), of _ d]
  by (auto simp: uriSafe_def)

text \<open>
  Where the round trip holds. The scheme constant is a scheme (not empty, without \<open>:\<close>,
  \<open>/\<close>, \<open>?\<close>, \<open>#\<close>), the root is an absolute path, none of root, relative file name,
  revision id and shortened id contains \<open>?\<close>, \<open>#\<close> or \<open>%\<close>, and \<open>normalizePath\<close> leaves the
  relative name that the encoder computes as it is; the revision id is a committed one
  (\<open>isUncommitted\<close> is false). Then \<open>toRevisionUri\<close> returns a locator of the revision
  scheme, the same for the overload that takes a status record with the relative name and
  for the one that takes the resolved file name, and constructing a GitUri from that
  locator returns one whose path is \<open>resolve(repoRoot, relativeFileName)\<close>, whose
  \<open>repoPath\<close> is the root and whose \<open>sha\<close> is the revision id.
\<close>

lemma revision_roundtrip:
  assumes sch: "GitLensGit env \<noteq> []" "list_all schemeChar (GitLensGit env)"
    and root: "path_isAbsolute repoRoot" "uriSafe repoRoot"
    and rel: "uriSafe relativeFileName"
    and rev: "uriSafe revisionId" "uriSafe (shortenSha env revisionId)"
    and committed: "\<not> isUncommitted env (Some revisionId)"
    and norm: "normalizePath env
                 (path_relative (cwd env) repoRoot (resolveStr (cwd env) [repoRoot, relativeFileName]))
               = path_relative (cwd env) repoRoot (resolveStr (cwd env) [repoRoot, relativeFileName])"
  shows "\<exists>u g. toRevisionUri env
                  (OfStatus revisionId
                     \<lparr>status_fileName = relativeFileName, status_originalFileName = orig\<rparr> repoRoot) = Inr u
           \<and> toRevisionUri env
                  (OfFileName revisionId (resolveStr (cwd env) [repoRoot, relativeFileName]) repoRoot) = Inr u
           \<and> scheme u = GitLensGit env
           \<and> fromRevisionUri env u = Inr g
           \<and> path g = resolveStr (cwd env) [repoRoot, relativeFileName]
           \<and> repoPath g = Some repoRoot
           \<and> sha g = Some revisionId"
proof -
  let ?t = "resolveStr (cwd env) [repoRoot, relativeFileName]"
  let ?f = "path_relative (cwd env) repoRoot ?t"
  obtain ts where nt: "normalSegs ts" and t: "?t = absPath ts"
    using resolveStr_two_normal [OF root(1)] by blast
  have safe_t: "uriSafe ?t"
    using root rel by (rule uriSafe_resolve)
  have safe_f: "uriSafe ?f"
    using uriSafe_relative [OF root(1) nt] safe_t by (simp add: t)
  have again: "resolveStr (cwd env) [repoRoot, ?f] = ?t"
    using resolve_relative_roundtrip [OF root(1) nt] by (simp add: t)
  let ?u = "\<lparr>scheme = GitLensGit env, authority = [],
            path = path_join [dir (path_parse ?t), name (path_parse ?t)] @ CHR '':'' # shortenSha env revisionId
                   @ ext (path_parse ?t),
            query = JSON_stringify (revisionData env repoRoot ?t (Some revisionId)), fragment = []\<rparr>"
  have parse: "Uri_parse (revisionText env repoRoot ?t (Some revisionId) (Some (shortenSha env revisionId))) = Inr ?u"
    using sch safe_t rev(2) _ root(2) rev(1)
    by (rule revisionText_parse) (simp add: norm safe_f)
  have enc1: "toRevisionUri env
                (OfStatus revisionId \<lparr>status_fileName = relativeFileName, status_originalFileName = orig\<rparr> repoRoot)
              = Inr ?u"
    by (simp add: toRevisionUri_def path_resolve_two parse)
  have enc2: "toRevisionUri env (OfFileName revisionId ?t repoRoot) = Inr ?u"
    by (simp add: toRevisionUri_def parse)
  have q: "query ?u = JSON_stringify [(''fileName'', Some ?f), (''repoPath'', Some repoRoot), (''sha'', Some revisionId)]"
    by (simp add: revisionData_def norm)
  have dec: "fromRevisionUri env ?u
             = Inr \<lparr>scheme = scheme ?u, authority = authority ?u, path = resolveStr (cwd env) [repoRoot, ?f],
                    query = query ?u, fragment = fragment ?u,
                    repoPath = Some repoRoot, sha = keptSha env (Some revisionId)\<rparr>"
    unfolding fromRevisionUri_def by (rule decode_revision [OF _ q]) simp
  have kept: "keptSha env (Some revisionId) = Some revisionId"
    using committed by (simp add: keptSha_def)
  show ?thesis
    using enc1 enc2 dec again kept by simp
qed

lemma repo_resolve: "resolveStr d [''/repo'', ''src/a.ts''] = ''/repo/src/a.ts''"
  by (simp add: resolveStr_def path_resolve_def normalizeString_def normalizeSegs_def normalizeStep_def)

lemma repo_resolve_root: "resolveStr d [''/repo''] = ''/repo''"
  by (simp add: resolveStr_def path_resolve_def normalizeString_def normalizeSegs_def normalizeStep_def)

lemma repo_resolve_file: "resolveStr d [''/repo/src/a.ts''] = ''/repo/src/a.ts''"
  by (simp add: resolveStr_def path_resolve_def normalizeString_def normalizeSegs_def normalizeStep_def)

lemma repo_relative: "path_relative d ''/repo'' ''/repo/src/a.ts'' = ''src/a.ts''"
  by (simp add: path_relative_def repo_resolve_root repo_resolve_file absSegs_def)

lemma repo_parse:
  "path_parse ''/repo/src/a.ts''
   = \<lparr>root = ''/'', dir = ''/repo/src'', base = ''a.ts'', ext = ''.ts'', name = ''a''\<rparr>"
  by (simp add: path_parse_def stripSlashes_def lastComponent_def lastDot_def Let_def)

lemma repo_join: "path_join [''/repo/src'', ''a''] = ''/repo/src/a''"
  by (simp add: path_join_def path_normalize_def normalizeString_def normalizeSegs_def normalizeStep_def)

lemma uriSafe_repo: "uriSafe ''/repo''" "uriSafe ''src/a.ts''" "uriSafe ''/repo/src/a.ts''"
  by (simp_all add: uriSafe_def)

text \<open>
  C3: the end-to-end example. For root \<open>/repo\<close>, relative file name \<open>src/a.ts\<close> and a
  revision id that, like its shortened form, has none of \<open>?\<close>, \<open>#\<close>, \<open>%\<close>, the locator has
  the revision scheme, its path is \<open>/repo/src/a\<close>, a colon, the shortened id and \<open>.ts\<close>, and
  its query parses to the three members \<open>fileName = src/a.ts\<close>, \<open>repoPath = /repo\<close> and
  \<open>sha\<close> = the full revision id.
\<close>

theorem toRevisionUri_example:
  assumes sch: "GitLensGit env \<noteq> []" "list_all schemeChar (GitLensGit env)"
    and rev: "uriSafe revisionId" "uriSafe (shortenSha env revisionId)"
    and norm: "normalizePath env ''src/a.ts'' = ''src/a.ts''"
  shows "\<exists>u. toRevisionUri env
                (OfStatus revisionId \<lparr>status_fileName = ''src/a.ts'', status_originalFileName = orig\<rparr> ''/repo'')
              = Inr u
           \<and> scheme u = GitLensGit env
           \<and> path u = ''/repo/src/a:'' @ shortenSha env revisionId @ ''.ts''
           \<and> JSON_parse (query u)
               = Inr [(''fileName'', ''src/a.ts''), (''repoPath'', ''/repo''), (''sha'', revisionId)]"
proof -
  let ?u = "\<lparr>scheme = GitLensGit env, authority = [],
            path = ''/repo/src/a:'' @ shortenSha env revisionId @ ''.ts'',
            query = JSON_stringify [(''fileName'', Some ''src/a.ts''), (''repoPath'', Some ''/repo''),
                                    (''sha'', Some revisionId)],
            fragment = []\<rparr>"
  have "Uri_parse (revisionText env ''/repo'' ''/repo/src/a.ts'' (Some revisionId) (Some (shortenSha env revisionId)))
        = Inr ?u"
    using revisionText_parse [OF sch uriSafe_repo(3) rev(2) _ uriSafe_repo(1) rev(1)]
    by (simp add: repo_relative norm uriSafe_repo repo_parse repo_join revisionData_def)
  then have "toRevisionUri env
               (OfStatus revisionId \<lparr>status_fileName = ''src/a.ts'', status_originalFileName = orig\<rparr> ''/repo'')
             = Inr ?u"
    by (simp add: toRevisionUri_def path_resolve_two repo_resolve)
  moreover have "JSON_parse (query ?u)
                 = Inr [(''fileName'', ''src/a.ts''), (''repoPath'', ''/repo''), (''sha'', revisionId)]"
    by (simp add: JSON_roundtrip definedMembers_three)
  ultimately show ?thesis by simp
qed

lemma example_sha_safe:
  "uriSafe ''deadbeef0123456789abcdef0123456789abcdef''"
  "shortenSha exampleEnv ''deadbeef0123456789abcdef0123456789abcdef'' = ''deadbee''"
  "\<not> isUncommitted exampleEnv (Some ''deadbeef0123456789abcdef0123456789abcdef'')"
  by (simp_all add: uriSafe_def exampleEnv_def stagedUncommittedSha_def uncommittedSha_def)

lemma exampleEnv_fields:
  "GitLensGit exampleEnv = ''gitlens-git''" "cwd exampleEnv = ''/home/user''"
  "normalizePath exampleEnv ''src/a.ts'' = ''src/a.ts''"
  by (simp_all add: exampleEnv_def)

lemma exampleEnv_scheme:
  "GitLensGit exampleEnv \<noteq> []" "list_all schemeChar (GitLensGit exampleEnv)"
  by (simp_all add: exampleEnv_def schemeChar_def)

text \<open>
  Witness for C3: the id \<open>deadbeef0123456789abcdef0123456789abcdef\<close>, shortened to
  \<open>deadbee\<close>.
\<close>

theorem toRevisionUri_example_witness:
  "(case toRevisionUri exampleEnv
           (OfStatus ''deadbeef0123456789abcdef0123456789abcdef''
              \<lparr>status_fileName = ''src/a.ts'', status_originalFileName = None\<rparr> ''/repo'') of
      Inl e \<Rightarrow> False
    | Inr u \<Rightarrow>
        scheme u = ''gitlens-git'' \<and> path u = ''/repo/src/a:deadbee.ts''
        \<and> JSON_parse (query u)
            = Inr [(''fileName'', ''src/a.ts''), (''repoPath'', ''/repo''),
                   (''sha'', ''deadbeef0123456789abcdef0123456789abcdef'')])"
proof -
  have "uriSafe (shortenSha exampleEnv ''deadbeef0123456789abcdef0123456789abcdef'')"
    by (simp add: example_sha_safe(2) uriSafe_def)
  from toRevisionUri_example [OF exampleEnv_scheme example_sha_safe(1) this exampleEnv_fields(3), of None]
  show ?thesis
    by (auto simp: example_sha_safe(2) exampleEnv_fields)
qed

text \<open>
  The triple of the end-to-end example, encoded and decoded.
\<close>

lemma revision_roundtrip_example:
  "(case toRevisionUri exampleEnv
           (OfStatus ''deadbeef0123456789abcdef0123456789abcdef''
              \<lparr>status_fileName = ''src/a.ts'', status_originalFileName = None\<rparr> ''/repo'') of
      Inl e \<Rightarrow> False
    | Inr u \<Rightarrow>
        (case fromRevisionUri exampleEnv u of
           Inl e \<Rightarrow> False
         | Inr g \<Rightarrow>
             path g = ''/repo/src/a.ts'' \<and> repoPath g = Some ''/repo''
             \<and> sha g = Some ''deadbeef0123456789abcdef0123456789abcdef''))"
proof -
  have short: "uriSafe (shortenSha exampleEnv ''deadbeef0123456789abcdef0123456789abcdef'')"
    by (simp add: example_sha_safe(2) uriSafe_def)
  have root: "path_isAbsolute ''/repo''"
    by (simp add: path_isAbsolute_def)
  have norm: "normalizePath exampleEnv
                 (path_relative (cwd exampleEnv) ''/repo'' (resolveStr (cwd exampleEnv) [''/repo'', ''src/a.ts'']))
               = path_relative (cwd exampleEnv) ''/repo'' (resolveStr (cwd exampleEnv) [''/repo'', ''src/a.ts''])"
    by (simp add: repo_resolve repo_relative exampleEnv_fields(3))
  from revision_roundtrip [OF exampleEnv_scheme root uriSafe_repo(1) uriSafe_repo(2) example_sha_safe(1)
      short example_sha_safe(3) norm, of None]
  show ?thesis
    by (auto simp: repo_resolve)
qed

text \<open>
  C1: decoding the locator that \<open>toRevisionUri\<close> produces for a root, a relative file name
  and a committed revision id is to give a GitUri whose path is the file name resolved
  against the root. The encoder and the decoder are evaluated at the root \<open>/repo\<close>, the id
  \<open>deadbeef0123456789abcdef0123456789abcdef\<close> and two file names. \<open>toRevisionUri\<close> puts
  the path and the JSON text into the locator as they are and hands the text to
  \<open>Uri.parse\<close>, which splits at \<open>?\<close> and \<open>#\<close> and decodes \<open>%\<close> escapes. For \<open>src/a#b.ts\<close>
  the \<open>#\<close> starts the fragment, the query is empty, and constructing the GitUri raises
  SyntaxError from \<open>JSON.parse\<close>. For \<open>a%41.ts\<close> the escape \<open>%41\<close> is decoded to \<open>A\<close> in
  the query, and the GitUri is one of another file, \<open>/repo/aA.ts\<close>, where the file name
  resolved against the root is \<open>/repo/a%41.ts\<close>.
\<close>

theorem revision_roundtrip_breaks_unescaped:
  "(case toRevisionUri exampleEnv
           (OfStatus ''deadbeef0123456789abcdef0123456789abcdef''
              \<lparr>status_fileName = ''src/a#b.ts'', status_originalFileName = None\<rparr> ''/repo'') of
      Inl e \<Rightarrow> Inl e
    | Inr u \<Rightarrow> fromRevisionUri exampleEnv u) = Inl SyntaxError
   \<and> (case toRevisionUri exampleEnv
           (OfStatus ''deadbeef0123456789abcdef0123456789abcdef''
              \<lparr>status_fileName = ''a%41.ts'', status_originalFileName = None\<rparr> ''/repo'') of
      Inl e \<Rightarrow> Inl e
    | Inr u \<Rightarrow>
        (case fromRevisionUri exampleEnv u of
           Inl e \<Rightarrow> Inl e
         | Inr g \<Rightarrow> Inr (path g, repoPath g, sha g)))
     = Inr (''/repo/aA.ts'', Some ''/repo'', Some ''deadbeef0123456789abcdef0123456789abcdef'')
   \<and> resolveStr (cwd exampleEnv) [''/repo'', ''a%41.ts''] = ''/repo/a%41.ts''
   \<and> resolveStr (cwd exampleEnv) [''/repo'', ''src/a#b.ts''] = ''/repo/src/a#b.ts''"
  by code_simp

lemma keptSha_eq:
  "keptSha env s = (if isUncommitted env s \<and> \<not> isStagedUncommitted env s then None else s)"
  by (auto simp: keptSha_def)

lemma commit_info_resolves:
  "\<exists>p. path_resolve d [Some r, js_or f (Some x)] = Inr p"
  by (cases f) (auto simp: js_or_def path_resolve_two)

text \<open>
  C2, as amended: a GitUri decoded from a locator of the revision scheme, or built from a
  commit-info record, has its \<open>sha\<close> unset when the embedded id is uncommitted and not
  staged-uncommitted, and equal to the embedded id in every other case. So the
  "uncommitted" sentinel is normalized to unset, and the "staged-uncommitted" sentinel is
  kept as the \<open>sha\<close>. Building from a commit-info record always returns.
\<close>

theorem GitUri_sha_kept:
  "(scheme u = GitLensGit env \<longrightarrow>
      (\<forall>g. GitUri_new env (Some u) arg = Inr g \<longrightarrow>
         (\<exists>data. JSON_parse (query u) = Inr data
            \<and> sha g = (if isUncommitted env (getProp data ''sha'')
                           \<and> \<not> isStagedUncommitted env (getProp data ''sha'')
                        then None else getProp data ''sha''))))
   \<and> (scheme u \<noteq> GitLensGit env \<longrightarrow>
      (\<exists>g. GitUri_new env (Some u) (Some (CommitArg ci)) = Inr g
         \<and> sha g = (if isUncommitted env (info_sha ci) \<and> \<not> isStagedUncommitted env (info_sha ci)
                     then None else info_sha ci)))"
proof (intro conjI impI allI)
  fix g
  assume "scheme u = GitLensGit env" and "GitUri_new env (Some u) arg = Inr g"
  then show "\<exists>data. JSON_parse (query u) = Inr data
            \<and> sha g = (if isUncommitted env (getProp data ''sha'')
                           \<and> \<not> isStagedUncommitted env (getProp data ''sha'')
                        then None else getProp data ''sha'')"
    by (auto simp: GitUri_new_def keptSha_eq split: sum.splits)
next
  assume other: "scheme u \<noteq> GitLensGit env"
  obtain p where "path_resolve (cwd env) [Some (info_repoPath ci), js_or (info_fileName ci) (Some (fsPath u))] = Inr p"
    using commit_info_resolves by blast
  with other show "\<exists>g. GitUri_new env (Some u) (Some (CommitArg ci)) = Inr g
         \<and> sha g = (if isUncommitted env (info_sha ci) \<and> \<not> isStagedUncommitted env (info_sha ci)
                     then None else info_sha ci)"
    by (simp add: GitUri_new_def keptSha_eq)
qed

lemma exampleEnv_sentinels:
  "isStagedUncommitted exampleEnv (Some stagedUncommittedSha)"
  "isUncommitted exampleEnv (Some stagedUncommittedSha)"
  "isUncommitted exampleEnv (Some uncommittedSha)"
  "\<not> isStagedUncommitted exampleEnv (Some uncommittedSha)"
  by (simp_all add: exampleEnv_def stagedUncommittedSha_def uncommittedSha_def)

lemma file_a_fsPath:
  "fsPath \<lparr>scheme = ''file'', authority = [], path = ''/repo/a.ts'', query = [], fragment = []\<rparr> = ''/repo/a.ts''"
  by (simp add: fsPath_def)

lemma file_a_resolve: "resolveStr d [''/repo'', ''/repo/a.ts''] = ''/repo/a.ts''"
  by (simp add: resolveStr_def path_resolve_def normalizeString_def normalizeSegs_def normalizeStep_def)

lemma file_a_resolve_rel: "resolveStr d [''/repo'', ''a.ts''] = ''/repo/a.ts''"
  by (simp add: resolveStr_def path_resolve_def normalizeString_def normalizeSegs_def normalizeStep_def)

text \<open>
  Counterexample to C2 as stated: with the "staged-uncommitted" sentinel as the embedded
  id, both ways of building a GitUri set \<open>sha\<close> to the sentinel.
\<close>

theorem GitUri_keeps_staged_sentinel:
  "GitUri_new exampleEnv
     (Some \<lparr>scheme = ''file'', authority = [], path = ''/repo/a.ts'', query = [], fragment = []\<rparr>)
     (Some (CommitArg \<lparr>info_fileName = None, info_repoPath = ''/repo'',
                       info_sha = Some stagedUncommittedSha\<rparr>))
   = Inr \<lparr>scheme = ''file'', authority = [], path = ''/repo/a.ts'', query = [], fragment = [],
          repoPath = Some ''/repo'', sha = Some stagedUncommittedSha\<rparr>
   \<and> fromRevisionUri exampleEnv
       \<lparr>scheme = ''gitlens-git'', authority = [], path = ''/repo/a:0000000000000000000000000000000000000000:.ts'',
        query = JSON_stringify [(''fileName'', Some ''a.ts''), (''repoPath'', Some ''/repo''),
                                (''sha'', Some stagedUncommittedSha)],
        fragment = []\<rparr>
     = Inr \<lparr>scheme = ''gitlens-git'', authority = [], path = ''/repo/a.ts'',
            query = JSON_stringify [(''fileName'', Some ''a.ts''), (''repoPath'', Some ''/repo''),
                                    (''sha'', Some stagedUncommittedSha)],
            fragment = [], repoPath = Some ''/repo'', sha = Some stagedUncommittedSha\<rparr>
   \<and> isStagedUncommitted exampleEnv (Some stagedUncommittedSha)
   \<and> isUncommitted exampleEnv (Some stagedUncommittedSha)"
proof -
  have kept: "keptSha exampleEnv (Some stagedUncommittedSha) = Some stagedUncommittedSha"
    by (simp add: keptSha_def exampleEnv_sentinels)
  have one: "GitUri_new exampleEnv
     (Some \<lparr>scheme = ''file'', authority = [], path = ''/repo/a.ts'', query = [], fragment = []\<rparr>)
     (Some (CommitArg \<lparr>info_fileName = None, info_repoPath = ''/repo'',
                       info_sha = Some stagedUncommittedSha\<rparr>))
   = Inr \<lparr>scheme = ''file'', authority = [], path = ''/repo/a.ts'', query = [], fragment = [],
          repoPath = Some ''/repo'', sha = Some stagedUncommittedSha\<rparr>"
    by (simp add: GitUri_new_def exampleEnv_fields js_or_def file_a_fsPath path_resolve_two
        file_a_resolve kept)
  have two: "fromRevisionUri exampleEnv
       \<lparr>scheme = ''gitlens-git'', authority = [], path = ''/repo/a:0000000000000000000000000000000000000000:.ts'',
        query = JSON_stringify [(''fileName'', Some ''a.ts''), (''repoPath'', Some ''/repo''),
                                (''sha'', Some stagedUncommittedSha)],
        fragment = []\<rparr>
     = Inr \<lparr>scheme = ''gitlens-git'', authority = [], path = ''/repo/a.ts'',
            query = JSON_stringify [(''fileName'', Some ''a.ts''), (''repoPath'', Some ''/repo''),
                                    (''sha'', Some stagedUncommittedSha)],
            fragment = [], repoPath = Some ''/repo'', sha = Some stagedUncommittedSha\<rparr>"
    unfolding fromRevisionUri_def
    by (subst decode_revision [where f = "''a.ts''" and r = "''/repo''" and s = stagedUncommittedSha])
       (simp_all add: exampleEnv_fields file_a_resolve_rel kept)
  from one two show ?thesis by (simp add: exampleEnv_sentinels)
qed

text \<open>
  Witness for C2: with the "uncommitted" sentinel as the embedded id, both ways leave
  \<open>sha\<close> unset.
\<close>

theorem GitUri_sha_kept_witness:
  "GitUri_new exampleEnv
     (Some \<lparr>scheme = ''file'', authority = [], path = ''/repo/a.ts'', query = [], fragment = []\<rparr>)
     (Some (CommitArg \<lparr>info_fileName = None, info_repoPath = ''/repo'',
                       info_sha = Some uncommittedSha\<rparr>))
   = Inr \<lparr>scheme = ''file'', authority = [], path = ''/repo/a.ts'', query = [], fragment = [],
          repoPath = Some ''/repo'', sha = None\<rparr>
   \<and> map_sum id sha
        (fromRevisionUri exampleEnv
          \<lparr>scheme = ''gitlens-git'', authority = [], path = ''/repo/a:0000000000000000000000000000000000000000.ts'',
           query = JSON_stringify [(''fileName'', Some ''a.ts''), (''repoPath'', Some ''/repo''),
                                   (''sha'', Some uncommittedSha)],
           fragment = []\<rparr>)
     = Inr None"
proof -
  let ?file = "\<lparr>scheme = ''file'', authority = [], path = ''/repo/a.ts'', query = [], fragment = []\<rparr>"
  let ?ci = "\<lparr>info_fileName = None, info_repoPath = ''/repo'', info_sha = Some uncommittedSha\<rparr>"
  let ?rev = "\<lparr>scheme = ''gitlens-git'', authority = [], path = ''/repo/a:0000000000000000000000000000000000000000.ts'',
           query = JSON_stringify [(''fileName'', Some ''a.ts''), (''repoPath'', Some ''/repo''),
                                   (''sha'', Some uncommittedSha)],
           fragment = []\<rparr>"
  have dec: "fromRevisionUri exampleEnv ?rev
     = Inr \<lparr>scheme = ''gitlens-git'', authority = [], path = ''/repo/a.ts'',
            query = JSON_stringify [(''fileName'', Some ''a.ts''), (''repoPath'', Some ''/repo''),
                                    (''sha'', Some uncommittedSha)],
            fragment = [], repoPath = Some ''/repo'', sha = keptSha exampleEnv (Some uncommittedSha)\<rparr>"
    unfolding fromRevisionUri_def
    by (subst decode_revision [where f = "''a.ts''" and r = "''/repo''" and s = uncommittedSha])
       (simp_all add: exampleEnv_fields file_a_resolve_rel)
  have parsed: "JSON_parse (query ?rev)
      = Inr [(''fileName'', ''a.ts''), (''repoPath'', ''/repo''), (''sha'', uncommittedSha)]"
    by (simp add: JSON_roundtrip definedMembers_three)
  have first: "GitUri_new exampleEnv (Some ?file) (Some (CommitArg ?ci))
   = Inr \<lparr>scheme = ''file'', authority = [], path = ''/repo/a.ts'', query = [], fragment = [],
          repoPath = Some ''/repo'', sha = None\<rparr>"
    using GitUri_sha_kept [of ?file exampleEnv None ?ci]
    by (simp add: GitUri_new_def exampleEnv_fields js_or_def file_a_fsPath path_resolve_two
        file_a_resolve exampleEnv_sentinels keptSha_def)
  have second: "map_sum id sha (fromRevisionUri exampleEnv ?rev) = Inr None"
    using GitUri_sha_kept [of ?rev exampleEnv None ?ci]
    by (simp add: dec fromRevisionUri_def [symmetric] exampleEnv_fields parsed getProp_revision
        exampleEnv_sentinels keptSha_def)
  from first second show ?thesis by simp
qed

lemma getFormattedPath_directory:
  "getFormattedPath env u separator relativeTo
   = (if directoryOfSpec env u relativeTo = [] \<or> directoryOfSpec env u relativeTo = ''.''
      then path_basename (fsPath u)
      else path_basename (fsPath u)
           @ (case separator of None \<Rightarrow> dotSeparator env | Some s \<Rightarrow> s)
           @ directoryOfSpec env u relativeTo)"
proof -
  have "directoryOfSpec env u relativeTo
        = normalizePath env
            (case relativeTo of
               None \<Rightarrow> (case repoPath u of
                          None \<Rightarrow> path_dirname (fsPath u)
                        | Some r \<Rightarrow> if r \<noteq> [] then path_relative (cwd env) r (path_dirname (fsPath u))
                                    else path_dirname (fsPath u))
             | Some t \<Rightarrow> path_relative (cwd env) t
                          (case repoPath u of
                             None \<Rightarrow> path_dirname (fsPath u)
                           | Some r \<Rightarrow> if r \<noteq> [] then path_relative (cwd env) r (path_dirname (fsPath u))
                                       else path_dirname (fsPath u)))"
    by (cases relativeTo; cases "repoPath u") (simp_all add: directoryOfSpec_def)
  then show ?thesis
    by (simp add: getFormattedPath_def Let_def)
qed

lemma direct_child_directory:
  assumes "repoPath u = Some r" "r \<noteq> []"
    and "resolveStr (cwd env) [path_dirname (fsPath u)] = resolveStr (cwd env) [r]"
  shows "directoryOfSpec env u None = normalizePath env []"
  using assms by (simp add: directoryOfSpec_def path_relative_def Let_def)

text \<open>
  C9, as amended: \<open>getFormattedPath\<close> returns the basename alone exactly when the
  directory of the spec (\<open>directoryOfSpec\<close>) is empty or \<open>.\<close>, and the basename, the
  separator and that directory otherwise; the static form on a GitUri is the same. For a
  path whose directory resolves to the repository root, called without \<open>relativeTo\<close>,
  the result is the basename alone (\<open>normalizePath\<close> taking the empty path to the empty
  path or to \<open>.\<close>).
\<close>

theorem getFormattedPath_cases:
  "getFormattedPath env u separator relativeTo
     = (if directoryOfSpec env u relativeTo = [] \<or> directoryOfSpec env u relativeTo = ''.''
        then path_basename (fsPath u)
        else path_basename (fsPath u)
             @ (case separator of None \<Rightarrow> dotSeparator env | Some s \<Rightarrow> s)
             @ directoryOfSpec env u relativeTo)
   \<and> (getFormattedPath env u separator relativeTo = path_basename (fsPath u))
       = (directoryOfSpec env u relativeTo = [] \<or> directoryOfSpec env u relativeTo = ''.'')
   \<and> static_getFormattedPath env (GitUriArg u) separator relativeTo
       = getFormattedPath env u separator relativeTo
   \<and> (repoPath u = Some r \<and> r \<noteq> []
        \<and> resolveStr (cwd env) [path_dirname (fsPath u)] = resolveStr (cwd env) [r]
        \<and> (normalizePath env [] = [] \<or> normalizePath env [] = ''.'')
       \<longrightarrow> getFormattedPath env u separator None = path_basename (fsPath u))"
proof (intro conjI impI)
  show "getFormattedPath env u separator relativeTo
     = (if directoryOfSpec env u relativeTo = [] \<or> directoryOfSpec env u relativeTo = ''.''
        then path_basename (fsPath u)
        else path_basename (fsPath u)
             @ (case separator of None \<Rightarrow> dotSeparator env | Some s \<Rightarrow> s)
             @ directoryOfSpec env u relativeTo)"
    by (rule getFormattedPath_directory)
  show "(getFormattedPath env u separator relativeTo = path_basename (fsPath u))
       = (directoryOfSpec env u relativeTo = [] \<or> directoryOfSpec env u relativeTo = ''.'')"
    by (simp add: getFormattedPath_directory)
  show "static_getFormattedPath env (GitUriArg u) separator relativeTo
       = getFormattedPath env u separator relativeTo"
    by (simp add: static_getFormattedPath_def)
next
  assume a: "repoPath u = Some r \<and> r \<noteq> []
        \<and> resolveStr (cwd env) [path_dirname (fsPath u)] = resolveStr (cwd env) [r]
        \<and> (normalizePath env [] = [] \<or> normalizePath env [] = ''.'')"
  then have "directoryOfSpec env u None = normalizePath env []"
    using direct_child_directory [of u r env] by simp
  with a show "getFormattedPath env u separator None = path_basename (fsPath u)"
    by (simp add: getFormattedPath_directory)
qed

lemma exampleGitUri_parts:
  "fsPath exampleGitUri = ''/repo/a.ts''"
  "path_dirname ''/repo/a.ts'' = ''/repo''"
  "path_basename ''/repo/a.ts'' = ''a.ts''"
  "repoPath exampleGitUri = Some ''/repo''"
  by (simp_all add: exampleGitUri_def fsPath_def path_dirname_def path_basename_def
      stripSlashes_def lastComponent_def Let_def)

lemma exampleEnv_empty: "normalizePath exampleEnv [] = []" "cwd exampleEnv = ''/home/user''"
  by (simp_all add: exampleEnv_def)

text \<open>
  Witness for C9: \<open>/repo/a.ts\<close> in the repository \<open>/repo\<close>.
\<close>

theorem getFormattedPath_cases_witness:
  "getFormattedPath exampleEnv exampleGitUri None None = ''a.ts''"
proof -
  have child: "repoPath exampleGitUri = Some ''/repo'' \<and> ''/repo'' \<noteq> []
        \<and> resolveStr (cwd exampleEnv) [path_dirname (fsPath exampleGitUri)]
            = resolveStr (cwd exampleEnv) [''/repo'']
        \<and> (normalizePath exampleEnv [] = [] \<or> normalizePath exampleEnv [] = ''.'')"
    by (simp add: exampleGitUri_parts exampleEnv_empty)
  with getFormattedPath_cases [of exampleEnv exampleGitUri None None "''/repo''"]
  have "getFormattedPath exampleEnv exampleGitUri None None = path_basename (fsPath exampleGitUri)"
    by blast
  then show ?thesis by (simp add: exampleGitUri_parts)
qed

lemma other_relative: "path_relative ''/home/user'' ''/other'' [] = ''../home/user''"
  by (simp add: path_relative_def resolveStr_def path_resolve_def normalizeString_def
      normalizeSegs_def normalizeStep_def absSegs_def Let_def)

lemma repo_dir_relative: "path_relative d ''/repo'' ''/repo'' = []"
  by (simp add: path_relative_def)

text \<open>
  Counterexample to C9 as stated: the same direct child of the root, formatted relative to
  \<open>/other\<close>, is shown with a directory, the way from \<open>/other\<close> to the working directory.
\<close>

theorem getFormattedPath_relativeTo_direct_child:
  "repoPath exampleGitUri = Some ''/repo''
   \<and> resolveStr (cwd exampleEnv) [path_dirname (fsPath exampleGitUri)] = resolveStr (cwd exampleEnv) [''/repo'']
   \<and> path_basename (fsPath exampleGitUri) = ''a.ts''
   \<and> getFormattedPath exampleEnv exampleGitUri (Some '' - '') (Some ''/other'') = ''a.ts - ../home/user''"
  by (simp add: getFormattedPath_def exampleGitUri_parts exampleEnv_empty repo_dir_relative
      other_relative exampleEnv_def)

end
